theory Spec2Isabelle
  imports Complex_Main
begin

section \<open>The Lorenz notebook\<close>

text \<open>
  The repository is one notebook, \<^verbatim>\<open>Lorenz_system.ipynb\<close>: a vector field, a call
  of an ODE integrator, a supervised dataset cut from the trajectory, a standardisation
  step and a polynomial regression pipeline that is fitted once per target column.

  Python floats are idealised as \<^typ>\<open>real\<close>, so rounding is not modelled. A missing
  value of a pandas column (NaN) is \<open>None\<close>. An exception is a value \<open>Inl e\<close>.
  A two-dimensional array is the list of its rows.
\<close>

datatype error = ValueError | NotFittedError | NameError

type_synonym vec = "real list"
type_synonym matrix = "real list list"

subsection \<open>The vector field\<close>

text \<open>
  \<^verbatim>\<open>
  def lorenz(w, t, sigma, rho, beta):
      x, y, z = w
      dwdt = [sigma * (y - x), x * (rho - z) - y, x * y - beta * z]
      return dwdt
  \<close>
  The unpacking \<^verbatim>\<open>x, y, z = w\<close> raises ValueError unless \<open>w\<close> has exactly three
  entries. The time argument is not used.
\<close>

fun lorenz :: "vec \<Rightarrow> real \<Rightarrow> real \<Rightarrow> real \<Rightarrow> real \<Rightarrow> error + vec" where
  "lorenz [x, y, z] t sigma rho beta =
     Inr [sigma * (y - x), x * (rho - z) - y, x * y - beta * z]"
| "lorenz w t sigma rho beta = Inl ValueError"

subsection \<open>The dataset builder\<close>

text \<open>
  \<^verbatim>\<open>
  df = pd.DataFrame(sol, columns=['x', 'y', 'z'])
  df['t'] = t
  df = df[['t','x', 'y', 'z']]
  df['x_future'] = df['x'].shift(-1)
  df['y_future'] = df['y'].shift(-1)
  df['z_future'] = df['z'].shift(-1)
  df = df.dropna()
  ...
  X = df[['x','y','z']]
  Y = df[['x_future','y_future','z_future']]
  \<close>
  The frame is the record of its seven columns and of its index (the row labels).
\<close>

record dataframe =
  df_index :: "nat list"
  col_t :: "real option list"
  col_x :: "real option list"
  col_y :: "real option list"
  col_z :: "real option list"
  x_future :: "real option list"
  y_future :: "real option list"
  z_future :: "real option list"

definition column :: "nat \<Rightarrow> matrix \<Rightarrow> vec" where
  "column j X = map (\<lambda>r. r ! j) X"

text \<open>
  Modelled from the spec: pandas is not among the sources. \<^verbatim>\<open>shift(-1)\<close> is the
  "one-step shift" of spec 3 and 4.3: every entry moves up by one place and the last
  place, which has no successor, is filled with the missing value.
\<close>

definition shift_neg1 :: "real option list \<Rightarrow> real option list" where
  "shift_neg1 col = (if col = [] then [] else tl col @ [None])"

text \<open>
  Modelled from the spec: \<^verbatim>\<open>dropna()\<close> keeps, in order and with their labels, the
  rows that have no missing value in any column (the notebook: "Drop the last row since
  it has NaN targets").
\<close>

definition notna_row :: "dataframe \<Rightarrow> nat \<Rightarrow> bool" where
  "notna_row df i \<longleftrightarrow>
     col_t df ! i \<noteq> None \<and> col_x df ! i \<noteq> None \<and> col_y df ! i \<noteq> None \<and>
     col_z df ! i \<noteq> None \<and> x_future df ! i \<noteq> None \<and> y_future df ! i \<noteq> None \<and>
     z_future df ! i \<noteq> None"

definition dropna :: "dataframe \<Rightarrow> dataframe" where
  "dropna df =
     (let keep = filter (notna_row df) [0..<length (df_index df)]
      in \<lparr>df_index = map ((!) (df_index df)) keep,
          col_t = map ((!) (col_t df)) keep,
          col_x = map ((!) (col_x df)) keep,
          col_y = map ((!) (col_y df)) keep,
          col_z = map ((!) (col_z df)) keep,
          x_future = map ((!) (x_future df)) keep,
          y_future = map ((!) (y_future df)) keep,
          z_future = map ((!) (z_future df)) keep\<rparr>)"

text \<open>
  The cell that builds the frame.

  Modelled from the spec: pandas is not among the sources.
  \<^verbatim>\<open>pd.DataFrame(sol, columns=['x','y','z'])\<close> has one row for each row of \<open>sol\<close>; a row
  shorter than the longest one is filled up with missing values, and ValueError is raised
  unless the longest row has three entries or \<open>sol\<close> has no row. \<^verbatim>\<open>df['t'] = t\<close> raises
  ValueError unless \<open>t\<close> has as many entries as the frame has rows; on a frame with no
  row it makes one row for each entry of \<open>t\<close>, with \<open>x\<close>, \<open>y\<close> and \<open>z\<close> missing.
\<close>

definition frame_column :: "nat \<Rightarrow> matrix \<Rightarrow> nat \<Rightarrow> real option list" where
  "frame_column j sol n =
     map (\<lambda>i. if i < length sol \<and> j < length (sol ! i) then Some (sol ! i ! j) else None)
       [0..<n]"

definition build_df :: "matrix \<Rightarrow> vec \<Rightarrow> error + dataframe" where
  "build_df sol t =
     (if sol \<noteq> [] \<and> \<not> ((\<forall>r\<in>set sol. length r \<le> 3) \<and> (\<exists>r\<in>set sol. length r = 3))
      then Inl ValueError
      else if sol \<noteq> [] \<and> length t \<noteq> length sol then Inl ValueError
      else
        let n = length t;
            xs = frame_column 0 sol n;
            ys = frame_column 1 sol n;
            zs = frame_column 2 sol n
        in Inr (dropna
             \<lparr>df_index = [0..<n], col_t = map Some t,
              col_x = xs, col_y = ys, col_z = zs,
              x_future = shift_neg1 xs, y_future = shift_neg1 ys,
              z_future = shift_neg1 zs\<rparr>))"

text \<open>\<^verbatim>\<open>X = df[['x','y','z']]\<close> and \<^verbatim>\<open>Y = df[['x_future','y_future','z_future']]\<close>, row by row.\<close>

definition features :: "dataframe \<Rightarrow> real option list list" where
  "features df =
     map (\<lambda>i. [col_x df ! i, col_y df ! i, col_z df ! i]) [0..<length (df_index df)]"

definition targets :: "dataframe \<Rightarrow> real option list list" where
  "targets df =
     map (\<lambda>i. [x_future df ! i, y_future df ! i, z_future df ! i]) [0..<length (df_index df)]"

subsection \<open>Arrays and their column statistics\<close>

definition n_features :: "matrix \<Rightarrow> nat" where
  "n_features X = (case X of [] \<Rightarrow> 0 | r # _ \<Rightarrow> length r)"

definition columns :: "matrix \<Rightarrow> vec list" where
  "columns X = map (\<lambda>j. column j X) [0..<n_features X]"

text \<open>
  Modelled from the spec: scikit-learn's input validation is not among the sources. Every
  estimator of the notebook raises ValueError for an array with no row or no column
  (spec 7 (c): malformed input shapes "should fail fast"); a ragged list of rows is no
  array at all.
\<close>

definition check_array :: "matrix \<Rightarrow> bool" where
  "check_array X \<longleftrightarrow> X \<noteq> [] \<and> n_features X \<noteq> 0 \<and> (\<forall>r\<in>set X. length r = n_features X)"

text \<open>\<^verbatim>\<open>np.mean\<close>, \<^verbatim>\<open>np.var\<close> and \<^verbatim>\<open>np.std\<close> (population variance, \<open>ddof = 0\<close>).\<close>

definition mean :: "vec \<Rightarrow> real" where
  "mean xs = sum_list xs / real (length xs)"

definition variance :: "vec \<Rightarrow> real" where
  "variance xs = mean (map (\<lambda>v. (v - mean xs)\<^sup>2) xs)"

definition std :: "vec \<Rightarrow> real" where
  "std xs = sqrt (variance xs)"

subsection \<open>The standardiser\<close>

text \<open>
  Modelled from the spec: scikit-learn's StandardScaler is not among the sources. Spec 4.4
  has it "subtract mean, divide by standard deviation" per feature, and the notebook
  itself: "StandardScaler object calculates the mean and SD of each feature, and scales
  each data point (x_scaled = (x - mu)/sigma)".

  The library does not divide by the standard deviation of a feature it finds constant.
  Its test \<^verbatim>\<open>_is_constant_feature(var, mean, n_samples)\<close> is
  \<^verbatim>\<open>var <= n_samples * eps * var + (n_samples * mean * eps) ** 2\<close> with
  \<^verbatim>\<open>eps = np.finfo(np.float64).eps\<close>, which is \<^verbatim>\<open>2 ** -52\<close>: it holds for every constant
  feature (variance 0) and for a feature whose variance is small next to its mean.
  \<^verbatim>\<open>_handle_zeros_in_scale(scale, constant_mask)\<close> then sets the scale of such a
  feature to 1.
\<close>

record StandardScaler =
  sc_mean :: vec
  sc_var :: vec
  sc_scale :: vec

definition eps :: real where
  "eps = 1 / 2 ^ 52"

definition is_constant_feature :: "real \<Rightarrow> real \<Rightarrow> nat \<Rightarrow> bool" where
  "is_constant_feature v m n_samples \<longleftrightarrow>
     v \<le> real n_samples * eps * v + (real n_samples * m * eps)\<^sup>2"

definition handle_zeros_in_scale :: "real \<Rightarrow> bool \<Rightarrow> real" where
  "handle_zeros_in_scale scale constant_mask = (if constant_mask then 1 else scale)"

definition StandardScaler_fit :: "matrix \<Rightarrow> error + StandardScaler" where
  "StandardScaler_fit X =
     (if \<not> check_array X then Inl ValueError
      else Inr \<lparr>sc_mean = map mean (columns X),
                sc_var = map variance (columns X),
                sc_scale = map (\<lambda>c. handle_zeros_in_scale (std c)
                                  (is_constant_feature (variance c) (mean c) (length c)))
                             (columns X)\<rparr>)"

definition standardize :: "StandardScaler \<Rightarrow> vec \<Rightarrow> vec" where
  "standardize sc r = map2 (\<lambda>v (m, s). (v - m) / s) r (zip (sc_mean sc) (sc_scale sc))"

definition StandardScaler_transform :: "StandardScaler \<Rightarrow> matrix \<Rightarrow> error + matrix" where
  "StandardScaler_transform sc X =
     (if \<not> check_array X \<or> n_features X \<noteq> length (sc_mean sc) then Inl ValueError
      else Inr (map (standardize sc) X))"

definition StandardScaler_fit_transform :: "matrix \<Rightarrow> error + StandardScaler \<times> matrix" where
  "StandardScaler_fit_transform X =
     (case StandardScaler_fit X of
        Inl e \<Rightarrow> Inl e
      | Inr sc \<Rightarrow>
          (case StandardScaler_transform sc X of
             Inl e \<Rightarrow> Inl e
           | Inr Xt \<Rightarrow> Inr (sc, Xt)))"

definition unstandardize :: "StandardScaler \<Rightarrow> vec \<Rightarrow> vec" where
  "unstandardize sc r = map2 (\<lambda>v (m, s). v * s + m) r (zip (sc_mean sc) (sc_scale sc))"

definition StandardScaler_inverse_transform :: "StandardScaler \<Rightarrow> matrix \<Rightarrow> error + matrix" where
  "StandardScaler_inverse_transform sc X =
     (if \<not> check_array X \<or> n_features X \<noteq> length (sc_mean sc) then Inl ValueError
      else Inr (map (unstandardize sc) X))"

text \<open>
  The scaling cell of the notebook:
  \<^verbatim>\<open>
  scaler = StandardScaler()
  X_train = scaler.fit_transform(X_train)
  X_test = scaler.transform(X_test)
  \<close>
  It returns the fitted scaler and the two scaled partitions.
\<close>

definition scaling_cell :: "matrix \<Rightarrow> matrix \<Rightarrow> error + StandardScaler \<times> matrix \<times> matrix" where
  "scaling_cell X_train X_test =
     (case StandardScaler_fit_transform X_train of
        Inl e \<Rightarrow> Inl e
      | Inr (scaler, X_train') \<Rightarrow>
          (case StandardScaler_transform scaler X_test of
             Inl e \<Rightarrow> Inl e
           | Inr X_test' \<Rightarrow> Inr (scaler, X_train', X_test')))"

subsection \<open>Polynomial features\<close>

text \<open>
  Modelled from the spec: scikit-learn's PolynomialFeatures is not among the sources.
  Spec 4.5 has it "expand the 3-feature input into polynomial terms up to a fixed degree".
  The library lists, for every degree from 0 up to the requested one, the combinations with
  replacement of the feature indices (Python's \<^verbatim>\<open>itertools\<close> order), and each term is the
  product of the features of one combination; the empty combination is the constant 1.
\<close>

fun combinations_with_replacement :: "nat list \<Rightarrow> nat \<Rightarrow> nat list list" where
  "combinations_with_replacement pool 0 = [[]]"
| "combinations_with_replacement [] (Suc r) = []"
| "combinations_with_replacement (i # pool) (Suc r) =
     map ((#) i) (combinations_with_replacement (i # pool) r)
     @ combinations_with_replacement pool (Suc r)"

definition powers :: "nat \<Rightarrow> nat \<Rightarrow> nat list list" where
  "powers n degree = concat (map (combinations_with_replacement [0..<n]) [0..<Suc degree])"

definition poly_row :: "nat \<Rightarrow> vec \<Rightarrow> vec" where
  "poly_row degree r = map (\<lambda>c. prod_list (map ((!) r) c)) (powers (length r) degree)"

definition PolynomialFeatures_fit_transform :: "nat \<Rightarrow> matrix \<Rightarrow> error + nat \<times> matrix" where
  "PolynomialFeatures_fit_transform degree X =
     (if \<not> check_array X then Inl ValueError
      else Inr (n_features X, map (poly_row degree) X))"

definition PolynomialFeatures_transform :: "nat \<Rightarrow> nat \<Rightarrow> matrix \<Rightarrow> error + matrix" where
  "PolynomialFeatures_transform degree n_features_in X =
     (if \<not> check_array X \<or> n_features X \<noteq> n_features_in then Inl ValueError
      else Inr (map (poly_row degree) X))"

subsection \<open>Linear regression\<close>

text \<open>
  Modelled from the spec: scikit-learn's LinearRegression and the least-squares solver
  under it are not among the sources. Spec 4.5 has it "fit an ordinary least-squares linear
  model". The library centres the features and the target, takes the minimum-norm
  least-squares solution of the centred system as coefficients, and sets the intercept so
  that the means are matched. The notebook calls it as it is, with no check of the rank of
  the matrix before and no handler around, and the library raises only for the shape of
  its input. The solution is the pseudo-inverse applied to the target, computed here by
  Greville's recursion over the columns, which is exact over the reals; that it is a
  least-squares solution, and the one of least norm, is proved below
  (\<open>LinearRegression_least_squares\<close>, \<open>LinearRegression_minimum_norm\<close>).
\<close>

definition dot :: "vec \<Rightarrow> vec \<Rightarrow> real" where
  "dot u v = sum_list (map2 (*) u v)"

definition vadd :: "vec \<Rightarrow> vec \<Rightarrow> vec" where
  "vadd u v = map2 (+) u v"

definition vsub :: "vec \<Rightarrow> vec \<Rightarrow> vec" where
  "vsub u v = map2 (-) u v"

definition vscale :: "real \<Rightarrow> vec \<Rightarrow> vec" where
  "vscale c v = map ((*) c) v"

fun lincomb :: "nat \<Rightarrow> vec \<Rightarrow> vec list \<Rightarrow> vec" where
  "lincomb m (c # cs) (v # vs) = vadd (vscale c v) (lincomb m cs vs)"
| "lincomb m cs vs = replicate m 0"

fun greville :: "nat \<Rightarrow> vec list \<Rightarrow> vec list" where
  "greville m [] = []"
| "greville m (a # A) =
     (let P = greville m A;
          d = map (\<lambda>p. dot p a) P;
          c = vsub a (lincomb m d A);
          b = (if dot c c = 0 then vscale (1 / (1 + dot d d)) (lincomb m d P)
               else vscale (1 / dot c c) c)
      in b # map2 (\<lambda>p dj. vsub p (vscale dj b)) P d)"

definition pinv :: "matrix \<Rightarrow> matrix" where
  "pinv A = greville (length A) (columns A)"

definition lstsq :: "matrix \<Rightarrow> vec \<Rightarrow> vec" where
  "lstsq A b = map (\<lambda>p. dot p b) (pinv A)"

text \<open>
  The fitted values of the solver for a target \<open>y\<close>: the columns \<open>A\<close> combined with the
  coefficients that the pseudo-inverse gives. Used to state what the solver guarantees.
\<close>

definition fit_proj :: "nat \<Rightarrow> vec list \<Rightarrow> vec \<Rightarrow> vec" where
  "fit_proj m A y = lincomb m (map (\<lambda>p. dot p y) (greville m A)) A"

record LinearRegression =
  coef :: vec
  intercept :: real

definition LinearRegression_fit :: "matrix \<Rightarrow> vec \<Rightarrow> error + LinearRegression" where
  "LinearRegression_fit X y =
     (if \<not> check_array X \<or> length y \<noteq> length X then Inl ValueError
      else
        let X_offset = map mean (columns X);
            y_offset = mean y;
            w = lstsq (map (\<lambda>r. vsub r X_offset) X) (map (\<lambda>v. v - y_offset) y)
        in Inr \<lparr>coef = w, intercept = y_offset - dot X_offset w\<rparr>)"

definition LinearRegression_predict :: "LinearRegression \<Rightarrow> matrix \<Rightarrow> error + vec" where
  "LinearRegression_predict m X =
     (if \<not> check_array X \<or> n_features X \<noteq> length (coef m) then Inl ValueError
      else Inr (map (\<lambda>r. dot r (coef m) + intercept m) X))"

text \<open>
  Two notions of the spec (4.5, 7 (b)). A matrix is rank-deficient when its columns are
  linearly dependent: some coefficients, not all zero, combine them to the zero column. An
  ordinary least-squares fit is one that minimises the sum of the squared residuals.
\<close>

definition rank_deficient :: "matrix \<Rightarrow> bool" where
  "rank_deficient A \<longleftrightarrow>
     (\<exists>w. length w = n_features A \<and> (\<exists>c\<in>set w. c \<noteq> 0) \<and> (\<forall>r\<in>set A. dot r w = 0))"

definition squared_error :: "vec \<Rightarrow> vec \<Rightarrow> real" where
  "squared_error y_true y_pred = sum_list (map2 (\<lambda>a p. (a - p)\<^sup>2) y_true y_pred)"

subsection \<open>The regression pipeline\<close>

text \<open>
  \<^verbatim>\<open>
  degree = 2
  pipeline = Pipeline([
      ('poly_features', PolynomialFeatures(degree=degree)),
      ('scaler', StandardScaler()),
      ('model', LinearRegression())
      ])
  \<close>
  The pipeline object holds the hyperparameter and, once fitted, the fitted state of its
  three steps. \<^verbatim>\<open>pipeline.fit(X, y)\<close> fits the steps in order, each on the output of the
  one before, and stores the three fitted steps in the object it was called on;
  \<^verbatim>\<open>pipeline.predict(X)\<close> sends \<open>X\<close> through the two transformers and the model.
\<close>

record fitted_steps =
  poly_features :: nat
  scaler :: StandardScaler
  model :: LinearRegression

record Pipeline =
  degree :: nat
  fitted :: "fitted_steps option"

definition new_Pipeline :: "nat \<Rightarrow> Pipeline" where
  "new_Pipeline d = \<lparr>degree = d, fitted = None\<rparr>"

definition Pipeline_fit :: "Pipeline \<Rightarrow> matrix \<Rightarrow> vec \<Rightarrow> error + Pipeline" where
  "Pipeline_fit p X y =
     (case PolynomialFeatures_fit_transform (degree p) X of
        Inl e \<Rightarrow> Inl e
      | Inr (n_in, Xp) \<Rightarrow>
          (case StandardScaler_fit_transform Xp of
             Inl e \<Rightarrow> Inl e
           | Inr (sc, Xs) \<Rightarrow>
               (case LinearRegression_fit Xs y of
                  Inl e \<Rightarrow> Inl e
                | Inr m \<Rightarrow>
                    Inr (p\<lparr>fitted := Some \<lparr>poly_features = n_in, scaler = sc, model = m\<rparr>\<rparr>))))"

definition Pipeline_predict :: "Pipeline \<Rightarrow> matrix \<Rightarrow> error + vec" where
  "Pipeline_predict p X =
     (case fitted p of
        None \<Rightarrow> Inl NotFittedError
      | Some f \<Rightarrow>
          (case PolynomialFeatures_transform (degree p) (poly_features f) X of
             Inl e \<Rightarrow> Inl e
           | Inr Xp \<Rightarrow>
               (case StandardScaler_transform (scaler f) Xp of
                  Inl e \<Rightarrow> Inl e
                | Inr Xs \<Rightarrow> LinearRegression_predict (model f) Xs)))"

subsection \<open>Evaluation\<close>

text \<open>
  Modelled from the spec: scikit-learn's \<^verbatim>\<open>mean_squared_error\<close> is not among the
  sources; spec 4.6 has the mean of the squared differences. It raises ValueError when the
  two arrays differ in length or are empty.
\<close>

definition mean_squared_error :: "vec \<Rightarrow> vec \<Rightarrow> error + real" where
  "mean_squared_error y_true y_pred =
     (if length y_true \<noteq> length y_pred \<or> y_true = [] then Inl ValueError
      else Inr (mean (map2 (\<lambda>a p. (a - p)\<^sup>2) y_true y_pred)))"

subsection \<open>The state of the notebook and the statements of its regression cells\<close>

text \<open>
  The three regression cells share the variables of the notebook: the four partitions,
  the one \<open>pipeline\<close> object, and per target the prediction array \<open>y_hat_for_...\<close> and
  the error \<open>rmse_for_...\<close>. \<open>None\<close> is a variable that is not bound yet. The printed
  text is kept as the list of the numbers printed.
\<close>

datatype target = Tx | Ty | Tz

fun target_column :: "target \<Rightarrow> nat" where
  "target_column Tx = 0"
| "target_column Ty = 1"
| "target_column Tz = 2"

record notebook =
  X_train :: matrix
  X_test :: matrix
  Y_train :: matrix
  Y_test :: matrix
  pipeline :: Pipeline
  y_hat_for :: "target \<Rightarrow> vec option"
  rmse_for :: "target \<Rightarrow> real option"
  stdout :: "real list"

text \<open>
  \<^verbatim>\<open>
  pipeline.fit(X_train, Y_train['x_future'])
  y_hat_for_x = pipeline.predict(X_test)
  rmse_for_x = np.sqrt(mean_squared_error(Y_test['x_future'], y_hat_for_x))
  print(f'RMSE from Polynomial Regression (degree {degree}): {rmse_for_x}')
  \<close>
  and the same for \<open>y\<close> and \<open>z\<close>, one statement after the other.
\<close>

definition fit_stmt :: "target \<Rightarrow> notebook \<Rightarrow> error + notebook" where
  "fit_stmt tg s =
     (case Pipeline_fit (pipeline s) (X_train s) (column (target_column tg) (Y_train s)) of
        Inl e \<Rightarrow> Inl e
      | Inr p \<Rightarrow> Inr (s\<lparr>pipeline := p\<rparr>))"

definition predict_stmt :: "target \<Rightarrow> notebook \<Rightarrow> error + notebook" where
  "predict_stmt tg s =
     (case Pipeline_predict (pipeline s) (X_test s) of
        Inl e \<Rightarrow> Inl e
      | Inr y_hat \<Rightarrow> Inr (s\<lparr>y_hat_for := (y_hat_for s)(tg := Some y_hat)\<rparr>))"

definition rmse_stmt :: "target \<Rightarrow> notebook \<Rightarrow> error + notebook" where
  "rmse_stmt tg s =
     (case y_hat_for s tg of
        None \<Rightarrow> Inl NameError
      | Some y_hat \<Rightarrow>
          (case mean_squared_error (column (target_column tg) (Y_test s)) y_hat of
             Inl e \<Rightarrow> Inl e
           | Inr mse \<Rightarrow>
               Inr (s\<lparr>rmse_for := (rmse_for s)(tg := Some (sqrt mse)),
                      stdout := stdout s @ [sqrt mse]\<rparr>)))"

section \<open>Properties\<close>

subsection \<open>The vector field\<close>

text \<open>
  C1. For every state \<open>(x, y, z)\<close> and every parameter triple the vector field returns,
  without failing, the derivative triple
  \<open>(sigma (y - x), x (rho - z) - y, x y - beta z)\<close>; at the origin the derivative is
  \<open>(0, 0, 0)\<close> whatever the parameters (and the time) are.
\<close>

theorem lorenz_derivative:
  "lorenz [x, y, z] t sigma rho beta =
     Inr [sigma * (y - x), x * (rho - z) - y, x * y - beta * z]
   \<and> lorenz [0, 0, 0] t sigma rho beta = Inr [0, 0, 0]"
  by simp

subsection \<open>The dataset builder\<close>

lemma length_column [simp]: "length (column j M) = length M"
  by (simp add: column_def)

lemma nth_column [simp]: "i < length M \<Longrightarrow> column j M ! i = M ! i ! j"
  by (simp add: column_def)

lemma column_eq_Nil [simp]: "column j M = [] \<longleftrightarrow> M = []"
  by (simp add: column_def)

lemma length_shift_neg1 [simp]: "length (shift_neg1 col) = length col"
  by (simp add: shift_neg1_def)

lemma shift_neg1_nth:
  "i < length col \<Longrightarrow>
     shift_neg1 col ! i = (if Suc i < length col then col ! Suc i else None)"
  by (cases col) (auto simp: shift_neg1_def nth_append nth_tl less_Suc_eq)

lemma filter_upt_less: "filter (\<lambda>i. Suc i < n) [0..<n] = [0..<n - 1]"
proof (cases n)
  case 0
  then show ?thesis by simp
next
  case (Suc m)
  have "filter (\<lambda>i. i < m) [0..<m] = [0..<m]"
    by (rule filter_True) simp
  with Suc show ?thesis by simp
qed

text \<open>Before \<open>dropna\<close>, the rows with a missing value are exactly the last one.\<close>

lemma keep_rows:
  assumes "length t = length sol"
  shows "filter (notna_row
           \<lparr>df_index = [0..<length sol], col_t = map Some t,
            col_x = map Some (column 0 sol), col_y = map Some (column 1 sol),
            col_z = map Some (column 2 sol),
            x_future = shift_neg1 (map Some (column 0 sol)),
            y_future = shift_neg1 (map Some (column 1 sol)),
            z_future = shift_neg1 (map Some (column 2 sol))\<rparr>) [0..<length sol]
         = [0..<length sol - 1]"
proof -
  have "filter (notna_row
           \<lparr>df_index = [0..<length sol], col_t = map Some t,
            col_x = map Some (column 0 sol), col_y = map Some (column 1 sol),
            col_z = map Some (column 2 sol),
            x_future = shift_neg1 (map Some (column 0 sol)),
            y_future = shift_neg1 (map Some (column 1 sol)),
            z_future = shift_neg1 (map Some (column 2 sol))\<rparr>) [0..<length sol]
        = filter (\<lambda>i. Suc i < length sol) [0..<length sol]"
    using assms
    by (intro filter_cong refl) (simp add: notna_row_def shift_neg1_nth)
  then show ?thesis by (simp add: filter_upt_less)
qed

lemma map_nth_upt: "k \<le> n \<Longrightarrow> map ((!) [0..<n]) [0..<k] = [0..<k]"
  by (rule nth_equalityI) auto

lemma list3_nth: "length r = 3 \<Longrightarrow> [f (r ! 0), f (r ! 1), f (r ! 2)] = map f r"
  by (auto simp: numeral_3_eq_3 length_Suc_conv)

lemma frame_column_rect:
  assumes "\<forall>r\<in>set sol. length r = 3" and "j < 3"
  shows "frame_column j sol (length sol) = map Some (column j sol)"
  unfolding frame_column_def column_def
  by (rule nth_equalityI) (use assms in simp_all)

lemma build_df_no_state:
  "build_df [] [0, 1]
     = Inr \<lparr>df_index = [], col_t = [], col_x = [], col_y = [], col_z = [],
            x_future = [], y_future = [], z_future = []\<rparr>"
  by (simp add: build_df_def frame_column_def shift_neg1_def dropna_def notna_row_def
        Let_def numeral_2_eq_2)

lemma build_df_short_row:
  "build_df [[1, 2], [4, 5, 6], [7, 8, 9]] [0, 1, 2]
     = Inr \<lparr>df_index = [1], col_t = [Some 1], col_x = [Some 4], col_y = [Some 5],
            col_z = [Some 6], x_future = [Some 7], y_future = [Some 8], z_future = [Some 9]\<rparr>"
  by (simp add: build_df_def frame_column_def shift_neg1_def dropna_def notna_row_def
        Let_def numeral_3_eq_3 numeral_2_eq_2)

text \<open>
  C2. For a trajectory of \<open>n \<ge> 1\<close> states, sampled on a grid of \<open>n\<close> times, the dataset
  has exactly \<open>n - 1\<close> rows, the rows labelled \<open>0, \<dots>, n - 2\<close>: row \<open>i\<close> of the features is
  state \<open>i\<close> and row \<open>i\<close> of the targets is state \<open>i + 1\<close>. Only the last state, which has
  no successor, is dropped. (The states are triples of numbers, so the only missing
  values in the frame are those that the shift puts into its last row.)
\<close>

theorem dataset_rows:
  assumes "\<forall>r\<in>set sol. length r = 3" and "length t = length sol" and "1 \<le> length sol"
  shows "\<exists>df. build_df sol t = Inr df
           \<and> df_index df = [0..<length sol - 1]
           \<and> length (features df) = length sol - 1
           \<and> length (targets df) = length sol - 1
           \<and> (\<forall>i<length sol - 1.
                 features df ! i = map Some (sol ! i)
               \<and> targets df ! i = map Some (sol ! (i + 1)))"
proof -
  let ?n = "length sol"
  define df where "df = dropna
             \<lparr>df_index = [0..<length sol], col_t = map Some t,
              col_x = map Some (column 0 sol), col_y = map Some (column 1 sol),
              col_z = map Some (column 2 sol),
              x_future = shift_neg1 (map Some (column 0 sol)),
              y_future = shift_neg1 (map Some (column 1 sol)),
              z_future = shift_neg1 (map Some (column 2 sol))\<rparr>"
  from assms(3) obtain r where "r \<in> set sol" by (cases sol) auto
  with assms(1) have three: "(\<forall>r\<in>set sol. length r \<le> 3) \<and> (\<exists>r\<in>set sol. length r = 3)"
    by auto
  have b: "build_df sol t = Inr df"
    using assms(1,2) three by (simp add: build_df_def df_def Let_def frame_column_rect)
  have keep: "df_index df = [0..<?n - 1]"
    "col_x df = map ((!) (map Some (column 0 sol))) [0..<?n - 1]"
    "col_y df = map ((!) (map Some (column 1 sol))) [0..<?n - 1]"
    "col_z df = map ((!) (map Some (column 2 sol))) [0..<?n - 1]"
    "x_future df = map ((!) (shift_neg1 (map Some (column 0 sol)))) [0..<?n - 1]"
    "y_future df = map ((!) (shift_neg1 (map Some (column 1 sol)))) [0..<?n - 1]"
    "z_future df = map ((!) (shift_neg1 (map Some (column 2 sol)))) [0..<?n - 1]"
    using keep_rows [OF assms(2)]
    by (simp_all add: df_def dropna_def map_nth_upt Let_def)
  have rows: "features df ! i = map Some (sol ! i) \<and> targets df ! i = map Some (sol ! (i + 1))"
    if "i < ?n - 1" for i
  proof -
    from that have i: "i < ?n" "Suc i < ?n" by simp_all
    with assms(1) have l: "length (sol ! i) = 3" "length (sol ! Suc i) = 3" by simp_all
    from that i show ?thesis
      by (simp add: features_def targets_def keep shift_neg1_nth
            list3_nth [OF l(1), of Some, simplified] list3_nth [OF l(2), of Some, simplified])
  qed
  have "length (features df) = ?n - 1" "length (targets df) = ?n - 1"
    by (simp_all add: features_def targets_def keep)
  with b keep(1) rows show ?thesis by blast
qed

theorem dataset_rows_witness:
  "\<exists>df. build_df [[1, 0, 0], [2, 3, 4], [5, 6, 7]] [0, 1, 2] = Inr df
      \<and> df_index df = [0, 1]
      \<and> features df = [[Some 1, Some 0, Some 0], [Some 2, Some 3, Some 4]]
      \<and> targets df = [[Some 2, Some 3, Some 4], [Some 5, Some 6, Some 7]]"
proof -
  have "\<forall>r\<in>set [[1, 0, 0], [2, 3, 4], [5, 6, 7::real]]. length r = 3" by simp
  moreover have "length [0, 1, 2::real] = length [[1, 0, 0], [2, 3, 4], [5, 6, 7::real]]"
    by simp
  moreover have "1 \<le> length [[1, 0, 0], [2, 3, 4], [5, 6, 7::real]]" by simp
  ultimately obtain df where df:
    "build_df [[1, 0, 0], [2, 3, 4], [5, 6, 7]] [0, 1, 2] = Inr df"
    "df_index df = [0..<length [[1, 0, 0], [2, 3, 4], [5, 6, 7::real]] - 1]"
    "length (features df) = length [[1, 0, 0], [2, 3, 4], [5, 6, 7::real]] - 1"
    "length (targets df) = length [[1, 0, 0], [2, 3, 4], [5, 6, 7::real]] - 1"
    "\<forall>i<length [[1, 0, 0], [2, 3, 4], [5, 6, 7::real]] - 1.
        features df ! i = map Some ([[1, 0, 0], [2, 3, 4], [5, 6, 7]] ! i)
      \<and> targets df ! i = map Some ([[1, 0, 0], [2, 3, 4], [5, 6, 7]] ! (i + 1))"
    using dataset_rows [of "[[1, 0, 0], [2, 3, 4], [5, 6, 7]]" "[0, 1, 2]"] by blast
  from df(5) have "features df ! 0 = [Some 1, Some 0, Some 0]"
    "features df ! 1 = [Some 2, Some 3, Some 4]"
    "targets df ! 0 = [Some 2, Some 3, Some 4]"
    "targets df ! 1 = [Some 5, Some 6, Some 7]"
    by simp_all
  with df(3,4) have "features df = [[Some 1, Some 0, Some 0], [Some 2, Some 3, Some 4]]"
    "targets df = [[Some 2, Some 3, Some 4], [Some 5, Some 6, Some 7]]"
    by (auto simp: list_eq_iff_nth_eq less_Suc_eq)
  with df(1,2) show ?thesis by (simp add: upt_rec)
qed

subsection \<open>Arrays\<close>

lemma length_columns [simp]: "length (columns X) = n_features X"
  by (simp add: columns_def)

lemma nth_columns [simp]: "j < n_features X \<Longrightarrow> columns X ! j = column j X"
  by (simp add: columns_def)

lemma columns_length: "\<forall>c\<in>set (columns A). length c = length A"
  by (simp add: columns_def)

lemma columns_nth_row:
  assumes "\<forall>r\<in>set A. length r = n_features A" and "i < length A"
  shows "map (\<lambda>a. a ! i) (columns A) = A ! i"
proof -
  from assms have l: "length (A ! i) = n_features A" by simp
  have "map (\<lambda>a. a ! i) (columns A) = map ((!) (A ! i)) [0..<length (A ! i)]"
    using assms(2) by (simp add: columns_def l)
  then show ?thesis by (simp only: map_nth)
qed

lemma check_array_row: "check_array X \<Longrightarrow> r \<in> set X \<Longrightarrow> length r = n_features X"
  by (simp add: check_array_def)

lemma n_features_map:
  assumes "X \<noteq> []" and "\<And>r. r \<in> set X \<Longrightarrow> length (f r) = d"
  shows "n_features (map f X) = d"
  using assms by (cases X) (simp_all add: n_features_def)

lemma check_array_map:
  assumes "X \<noteq> []" and "d \<noteq> 0" and "\<And>r. r \<in> set X \<Longrightarrow> length (f r) = d"
  shows "check_array (map f X)"
  using assms n_features_map [of X f d] by (auto simp: check_array_def)

lemmas array_eval =
  check_array_def n_features_def columns_def column_def mean_def variance_def std_def
  handle_zeros_in_scale_def is_constant_feature_def eps_def standardize_def unstandardize_def
  upt_rec

subsection \<open>Mean and variance of a standardised column\<close>

lemma sum_list_affine:
  "sum_list (map (\<lambda>v. (v - m) / s) xs) = (sum_list xs - real (length xs) * m) / (s::real)"
  by (induction xs) (simp_all add: diff_divide_distrib add_divide_distrib algebra_simps)

lemma mean_standardized:
  assumes "xs \<noteq> []"
  shows "mean (map (\<lambda>v. (v - mean xs) / s) xs) = 0"
  using assms by (simp add: mean_def sum_list_affine)

lemma sum_list_divide_const: "sum_list (map (\<lambda>v. f v / (c::real)) xs) = sum_list (map f xs) / c"
  by (induction xs) (simp_all add: add_divide_distrib)

lemma variance_standardized:
  assumes "xs \<noteq> []"
  shows "variance (map (\<lambda>v. (v - mean xs) / s) xs) = variance xs / s\<^sup>2"
proof -
  have "variance (map (\<lambda>v. (v - mean xs) / s) xs)
      = mean (map (\<lambda>v. ((v - mean xs) / s)\<^sup>2) xs)"
    unfolding variance_def mean_standardized [OF assms] by (simp add: comp_def)
  also have "\<dots> = mean (map (\<lambda>v. (v - mean xs)\<^sup>2 / s\<^sup>2) xs)"
    by (simp add: power_divide)
  also have "\<dots> = variance xs / s\<^sup>2"
    by (simp add: variance_def mean_def [of "map _ xs"] sum_list_divide_const)
  finally show ?thesis .
qed

lemma variance_nonneg: "0 \<le> variance xs"
  unfolding variance_def mean_def
  by (intro divide_nonneg_nonneg sum_list_nonneg) auto

lemma not_constant_feature_pos:
  assumes "\<not> is_constant_feature (variance xs) m n"
  shows "0 < variance xs"
proof (rule ccontr)
  assume "\<not> 0 < variance xs"
  with variance_nonneg [of xs] have "variance xs = 0" by simp
  with assms show False by (simp add: is_constant_feature_def)
qed

lemma constant_feature_zero_variance:
  "variance xs = 0 \<Longrightarrow> is_constant_feature (variance xs) m n"
  by (simp add: is_constant_feature_def)

lemma std_standardized:
  assumes "xs \<noteq> []"
  shows "std (map (\<lambda>v. (v - mean xs) / handle_zeros_in_scale (std xs)
                (is_constant_feature (variance xs) (mean xs) n)) xs)
       = (if is_constant_feature (variance xs) (mean xs) n then std xs else 1)"
proof (cases "is_constant_feature (variance xs) (mean xs) n")
  case True
  with variance_standardized [OF assms, of 1] show ?thesis
    by (simp add: std_def handle_zeros_in_scale_def)
next
  case False
  then have pos: "0 < variance xs" by (rule not_constant_feature_pos)
  have "std (map (\<lambda>v. (v - mean xs) / std xs) xs) = sqrt (variance xs / (std xs)\<^sup>2)"
    by (simp add: std_def [of "map _ _"] variance_standardized [OF assms])
  also have "(std xs)\<^sup>2 = variance xs"
    using pos by (simp add: std_def)
  finally show ?thesis using False pos by (simp add: handle_zeros_in_scale_def)
qed

lemma mean_replicate: "0 < n \<Longrightarrow> mean (replicate n c) = c"
  by (simp add: mean_def sum_list_replicate)

lemma variance_replicate: "variance (replicate n c) = 0"
  by (cases "n = 0") (simp_all add: variance_def mean_replicate, simp add: mean_def)

lemma sum_list_centred: "xs \<noteq> [] \<Longrightarrow> sum_list (map (\<lambda>v. v - mean xs) xs) = 0"
  using sum_list_affine [of "mean xs" 1 xs] by (simp add: mean_def)

subsection \<open>The standardiser\<close>

lemma StandardScaler_fit_Inr:
  "StandardScaler_fit X = Inr sc \<longleftrightarrow>
     check_array X
   \<and> sc = \<lparr>sc_mean = map mean (columns X), sc_var = map variance (columns X),
           sc_scale = map (\<lambda>c. handle_zeros_in_scale (std c)
                             (is_constant_feature (variance c) (mean c) (length c)))
                        (columns X)\<rparr>"
  by (auto simp: StandardScaler_fit_def)

lemma StandardScaler_fit_transform_Inr:
  "StandardScaler_fit_transform X = Inr (sc, Xt) \<longleftrightarrow>
     StandardScaler_fit X = Inr sc \<and> Xt = map (standardize sc) X"
  by (auto simp: StandardScaler_fit_transform_def StandardScaler_transform_def
        StandardScaler_fit_def split: sum.splits if_splits)

lemma length_standardize:
  "length (sc_mean sc) = length r \<Longrightarrow> length (sc_scale sc) = length r \<Longrightarrow>
     length (standardize sc r) = length r"
  by (simp add: standardize_def)

lemma nth_standardize:
  "length (sc_mean sc) = length r \<Longrightarrow> length (sc_scale sc) = length r \<Longrightarrow> j < length r \<Longrightarrow>
     standardize sc r ! j = (r ! j - sc_mean sc ! j) / sc_scale sc ! j"
  by (simp add: standardize_def)

lemma column_standardize:
  assumes "check_array X" and "length (sc_mean sc) = n_features X"
    and "length (sc_scale sc) = n_features X" and "j < n_features X"
  shows "column j (map (standardize sc) X)
       = map (\<lambda>v. (v - sc_mean sc ! j) / sc_scale sc ! j) (column j X)"
  using assms by (auto simp: column_def nth_standardize check_array_row)

lemma handle_zeros_in_scale_nonzero [simp]:
  "handle_zeros_in_scale (std xs) (is_constant_feature (variance xs) m n) \<noteq> 0"
  using not_constant_feature_pos [of xs m n] by (auto simp: handle_zeros_in_scale_def std_def)

lemma unstandardize_standardize:
  assumes "length (sc_mean sc) = length r" and "length (sc_scale sc) = length r"
    and "\<forall>s\<in>set (sc_scale sc). s \<noteq> 0"
  shows "unstandardize sc (standardize sc r) = r"
proof (rule nth_equalityI)
  show "length (unstandardize sc (standardize sc r)) = length r"
    using assms by (simp add: unstandardize_def standardize_def)
next
  fix j assume "j < length (unstandardize sc (standardize sc r))"
  with assms have j: "j < length r" by (simp add: unstandardize_def standardize_def)
  with assms have "sc_scale sc ! j \<noteq> 0" by (metis nth_mem)
  with j assms show "unstandardize sc (standardize sc r) ! j = r ! j"
    by (simp add: unstandardize_def nth_standardize length_standardize)
qed

lemma check_array_standardize:
  assumes "check_array X" and "StandardScaler_fit X = Inr sc"
  shows "check_array (map (standardize sc) X)"
    and "n_features (map (standardize sc) X) = n_features X"
    and "length (sc_mean sc) = n_features X" and "length (sc_scale sc) = n_features X"
    and "\<forall>s\<in>set (sc_scale sc). s \<noteq> 0"
proof -
  from assms(2) have sc: "sc = \<lparr>sc_mean = map mean (columns X), sc_var = map variance (columns X),
           sc_scale = map (\<lambda>c. handle_zeros_in_scale (std c)
                             (is_constant_feature (variance c) (mean c) (length c)))
                        (columns X)\<rparr>"
    by (simp add: StandardScaler_fit_Inr)
  then show len: "length (sc_mean sc) = n_features X" "length (sc_scale sc) = n_features X"
    and "\<forall>s\<in>set (sc_scale sc). s \<noteq> 0"
    by auto
  from assms(1) have X: "X \<noteq> []" "n_features X \<noteq> 0"
    and rows: "\<And>r. r \<in> set X \<Longrightarrow> length r = n_features X"
    by (simp_all add: check_array_def)
  have l: "length (standardize sc r) = n_features X" if "r \<in> set X" for r
    using that len by (simp add: length_standardize rows)
  show "check_array (map (standardize sc) X)"
    using X l by (rule check_array_map)
  show "n_features (map (standardize sc) X) = n_features X"
    using X(1) l by (rule n_features_map)
qed

lemma check_array_standardize_any:
  assumes "check_array X" and "length (sc_mean sc) = n_features X"
    and "length (sc_scale sc) = n_features X"
  shows "check_array (map (standardize sc) X)"
    and "n_features (map (standardize sc) X) = n_features X"
proof -
  from assms(1) have X: "X \<noteq> []" "n_features X \<noteq> 0"
    and rows: "\<And>r. r \<in> set X \<Longrightarrow> length r = n_features X"
    by (simp_all add: check_array_def)
  have l: "length (standardize sc r) = n_features X" if "r \<in> set X" for r
    using that assms(2,3) by (simp add: length_standardize rows)
  show "check_array (map (standardize sc) X)"
    using X l by (rule check_array_map)
  show "n_features (map (standardize sc) X) = n_features X"
    using X(1) l by (rule n_features_map)
qed

text \<open>
  C7 (amended). After fitting the standardiser on the training partition, every scaled
  training column has mean 0. Its standard deviation is 1, unless the library finds the
  training column constant (its variance is at most \<open>n * eps * variance + (n * mean * eps)\<^sup>2\<close>
  for the \<open>n\<close> training rows, which holds for every constant column): then the column is
  only centred, its scale is 1 and the scaled column has the standard deviation of the
  training column; a constant column is scaled to zeros, of standard deviation 0. The
  inverse transform of the scaled training data is the training data. The tolerance of
  the claim is that of floating-point arithmetic; over the reals of this theory the
  equalities are exact.
\<close>

theorem scaled_training_columns:
  assumes "StandardScaler_fit_transform X = Inr (sc, Xt)" and "j < n_features X"
  shows "mean (column j Xt) = 0
       \<and> std (column j Xt)
         = (if is_constant_feature (variance (column j X)) (mean (column j X)) (length X)
            then std (column j X) else 1)
       \<and> (is_constant_feature (variance (column j X)) (mean (column j X)) (length X)
            \<longrightarrow> sc_scale sc ! j = 1
              \<and> column j Xt = map (\<lambda>v. v - mean (column j X)) (column j X))
       \<and> (\<forall>c. column j X = replicate (length X) c
            \<longrightarrow> is_constant_feature (variance (column j X)) (mean (column j X)) (length X)
              \<and> column j Xt = replicate (length X) 0 \<and> std (column j Xt) = 0)
       \<and> StandardScaler_inverse_transform sc Xt = Inr X"
proof -
  let ?k = "is_constant_feature (variance (column j X)) (mean (column j X)) (length X)"
  from assms(1) have ok: "check_array X"
    and sc: "sc = \<lparr>sc_mean = map mean (columns X), sc_var = map variance (columns X),
           sc_scale = map (\<lambda>c. handle_zeros_in_scale (std c)
                             (is_constant_feature (variance c) (mean c) (length c)))
                        (columns X)\<rparr>"
    and Xt: "Xt = map (standardize sc) X"
    by (simp_all add: StandardScaler_fit_transform_Inr StandardScaler_fit_Inr)
  from sc have len: "length (sc_mean sc) = n_features X" "length (sc_scale sc) = n_features X"
    by simp_all
  from ok have ne: "column j X \<noteq> []" by (simp add: check_array_def column_def)
  have scale: "sc_scale sc ! j = handle_zeros_in_scale (std (column j X)) ?k"
    using assms(2) by (simp add: sc)
  have col: "column j Xt
       = map (\<lambda>v. (v - mean (column j X)) / handle_zeros_in_scale (std (column j X)) ?k)
           (column j X)"
    using column_standardize [OF ok len assms(2)] assms(2) by (simp add: Xt sc)
  have rows: "length (standardize sc r) = n_features X" if "r \<in> set X" for r
    using that len ok by (simp add: length_standardize check_array_row)
  from ok have X: "X \<noteq> []" "n_features X \<noteq> 0" by (simp_all add: check_array_def)
  have "n_features Xt = n_features X"
    unfolding Xt using X(1) rows by (rule n_features_map)
  moreover have "check_array Xt"
    unfolding Xt using X rows by (rule check_array_map)
  moreover have "map (unstandardize sc) Xt = X"
    unfolding Xt map_map
  proof (rule map_idI)
    fix r assume "r \<in> set X"
    with ok have "length r = n_features X" by (rule check_array_row)
    with len show "(unstandardize sc \<circ> standardize sc) r = r"
      by (simp add: unstandardize_standardize sc)
  qed
  ultimately have inv: "StandardScaler_inverse_transform sc Xt = Inr X"
    using len by (simp add: StandardScaler_inverse_transform_def)
  have m: "mean (column j Xt) = 0"
    using ne by (simp add: col mean_standardized)
  have s: "std (column j Xt) = (if ?k then std (column j X) else 1)"
    unfolding col using ne by (rule std_standardized)
  have k: "sc_scale sc ! j = 1
      \<and> column j Xt = map (\<lambda>v. v - mean (column j X)) (column j X)" if ?k
    using that by (simp add: scale col handle_zeros_in_scale_def)
  have c: "?k \<and> column j Xt = replicate (length X) 0 \<and> std (column j Xt) = 0"
    if r: "column j X = replicate (length X) c" for c
  proof -
    from r have v: "variance (column j X) = 0" by (simp add: variance_replicate)
    then have kk: ?k by (rule constant_feature_zero_variance)
    from X(1) have mc: "mean (column j X) = c" by (simp add: r mean_replicate)
    from k [OF kk] have "column j Xt = map (\<lambda>v. v - c) (replicate (length X) c)"
      by (simp add: mc) (simp add: r)
    then have z: "column j Xt = replicate (length X) 0" by simp
    from s kk v have "std (column j Xt) = 0" by (simp add: std_def)
    with kk z show ?thesis by simp
  qed
  from m s k c inv show ?thesis by blast
qed

theorem scaled_training_columns_witness:
  "StandardScaler_fit_transform [[0, 5], [2, 5]]
     = Inr (\<lparr>sc_mean = [1, 5], sc_var = [1, 0], sc_scale = [1, 1]\<rparr>, [[- 1, 0], [1, 0]])
   \<and> (0::nat) < n_features [[0, 5], [2, 5]] \<and> (1::nat) < n_features [[0, 5], [2, 5]]
   \<and> \<not> is_constant_feature (variance (column 0 [[0, 5], [2, 5]]))
         (mean (column 0 [[0, 5], [2, 5]])) (length [[0, 5], [2, 5 :: real]])
   \<and> mean (column 0 [[- 1, 0], [1, 0]]) = 0
   \<and> std (column 0 [[- 1, 0], [1, 0]]) = 1
   \<and> column 1 [[0, 5], [2, 5]] = replicate (length [[0, 5], [2, 5 :: real]]) 5
   \<and> is_constant_feature (variance (column 1 [[0, 5], [2, 5]]))
         (mean (column 1 [[0, 5], [2, 5]])) (length [[0, 5], [2, 5 :: real]])
   \<and> column 1 [[- 1, 0], [1, 0]] = replicate (length [[0, 5], [2, 5 :: real]]) 0
   \<and> std (column 1 [[- 1, 0], [1, 0]]) = 0
   \<and> StandardScaler_inverse_transform \<lparr>sc_mean = [1, 5], sc_var = [1, 0], sc_scale = [1, 1]\<rparr>
        [[- 1, 0], [1, 0]] = Inr [[0, 5], [2, 5]]"
proof -
  have e: "StandardScaler_fit_transform [[0, 5], [2, 5]]
     = Inr (\<lparr>sc_mean = [1, 5], sc_var = [1, 0], sc_scale = [1, 1]\<rparr>, [[- 1, 0], [1, 0]])"
    by (simp add: StandardScaler_fit_transform_def StandardScaler_fit_def
          StandardScaler_transform_def array_eval)
  have j0: "(0::nat) < n_features [[0, 5], [2, 5]]" and j1: "(1::nat) < n_features [[0, 5], [2, 5]]"
    by (simp_all add: n_features_def)
  have n0: "\<not> is_constant_feature (variance (column 0 [[0, 5], [2, 5]]))
         (mean (column 0 [[0, 5], [2, 5]])) (length [[0, 5], [2, 5 :: real]])"
    by (simp add: array_eval power2_eq_square)
  have r1: "column 1 [[0, 5], [2, 5]] = replicate (length [[0, 5], [2, 5 :: real]]) 5"
    by (simp add: column_def numeral_2_eq_2)
  from scaled_training_columns [OF e j0] n0
  have "mean (column 0 [[- 1, 0], [1, 0]]) = 0 \<and> std (column 0 [[- 1, 0], [1, 0]]) = 1
      \<and> StandardScaler_inverse_transform \<lparr>sc_mean = [1, 5], sc_var = [1, 0], sc_scale = [1, 1]\<rparr>
        [[- 1, 0], [1, 0]] = Inr [[0, 5], [2, 5]]"
    by simp
  moreover from scaled_training_columns [OF e j1] r1
  have "is_constant_feature (variance (column 1 [[0, 5], [2, 5]]))
         (mean (column 1 [[0, 5], [2, 5]])) (length [[0, 5], [2, 5 :: real]])
      \<and> column 1 [[- 1, 0], [1, 0]] = replicate (length [[0, 5], [2, 5 :: real]]) 0
      \<and> std (column 1 [[- 1, 0], [1, 0]]) = 0"
    by blast
  ultimately show ?thesis using e j0 j1 n0 r1 by blast
qed

theorem scaled_constant_column_counterexample:
  "StandardScaler_fit_transform [[0, 0, 0], [0, 0, 0]]
     = Inr (\<lparr>sc_mean = [0, 0, 0], sc_var = [0, 0, 0], sc_scale = [1, 1, 1]\<rparr>,
            [[0, 0, 0], [0, 0, 0]])
   \<and> std (column 0 [[0, 0, 0], [0, 0, 0]]) = 0
   \<and> std (column 0 [[0, 0, 0], [0, 0, 0]]) \<noteq> 1"
  by (simp add: StandardScaler_fit_transform_def StandardScaler_fit_def
        StandardScaler_transform_def array_eval)

lemma scaled_nearly_constant_column:
  "StandardScaler_fit [[1], [1 + 1 / 2 ^ 52]]
     = Inr \<lparr>sc_mean = [1 + 1 / 2 ^ 53], sc_var = [1 / 2 ^ 106], sc_scale = [1]\<rparr>"
  by (simp add: StandardScaler_fit_def array_eval power2_eq_square)

text \<open>
  C3. The scaler is fitted on the training partition alone and the same affine map is
  applied to both partitions: two runs of the scaling cell on the same training partition
  and different evaluation partitions end with the same fitted scaler, which is the one
  fitted on the training partition, and with the same scaled training partition.
\<close>

theorem scaler_fitted_on_training_only:
  assumes "scaling_cell X_tr X_te1 = Inr (sc1, tr1, te1)"
    and "scaling_cell X_tr X_te2 = Inr (sc2, tr2, te2)"
  shows "sc1 = sc2 \<and> tr1 = tr2
       \<and> StandardScaler_fit X_tr = Inr sc1
       \<and> sc_mean sc1 = map mean (columns X_tr)
       \<and> sc_scale sc1 = map (\<lambda>c. handle_zeros_in_scale (std c)
                               (is_constant_feature (variance c) (mean c) (length c)))
                          (columns X_tr)
       \<and> tr1 = map (standardize sc1) X_tr
       \<and> te1 = map (standardize sc1) X_te1
       \<and> te2 = map (standardize sc1) X_te2"
  using assms
  by (auto simp: scaling_cell_def StandardScaler_fit_transform_Inr StandardScaler_fit_Inr
        StandardScaler_transform_def split: sum.splits if_splits prod.splits)

theorem scaler_fitted_on_training_only_witness:
  "scaling_cell [[0, 5], [2, 5]] [[1, 2]]
     = Inr (\<lparr>sc_mean = [1, 5], sc_var = [1, 0], sc_scale = [1, 1]\<rparr>,
            [[- 1, 0], [1, 0]], [[0, - 3]])
   \<and> scaling_cell [[0, 5], [2, 5]] [[7, 7], [9, 5]]
     = Inr (\<lparr>sc_mean = [1, 5], sc_var = [1, 0], sc_scale = [1, 1]\<rparr>,
            [[- 1, 0], [1, 0]], [[6, 2], [8, 0]])
   \<and> StandardScaler_fit [[0, 5], [2, 5]]
     = Inr \<lparr>sc_mean = [1, 5], sc_var = [1, 0], sc_scale = [1, 1]\<rparr>"
proof -
  have e1: "scaling_cell [[0, 5], [2, 5]] [[1, 2]]
     = Inr (\<lparr>sc_mean = [1, 5], sc_var = [1, 0], sc_scale = [1, 1]\<rparr>,
            [[- 1, 0], [1, 0]], [[0, - 3]])"
    by (simp add: scaling_cell_def StandardScaler_fit_transform_def StandardScaler_fit_def
          StandardScaler_transform_def array_eval)
  have e2: "scaling_cell [[0, 5], [2, 5]] [[7, 7], [9, 5]]
     = Inr (\<lparr>sc_mean = [1, 5], sc_var = [1, 0], sc_scale = [1, 1]\<rparr>,
            [[- 1, 0], [1, 0]], [[6, 2], [8, 0]])"
    by (simp add: scaling_cell_def StandardScaler_fit_transform_def StandardScaler_fit_def
          StandardScaler_transform_def array_eval)
  from scaler_fitted_on_training_only [OF e1 e2] e1 e2 show ?thesis by simp
qed

subsection \<open>Evaluation\<close>

lemma map2_swap: "map2 f xs ys = map2 (\<lambda>y x. f x y) ys xs"
  by (induction xs arbitrary: ys) (auto simp: zip_Cons1 zip_Cons split: list.splits)

lemma squared_differences:
  "map2 (\<lambda>a p. (a - p)\<^sup>2) y_true y_pred = map2 (\<lambda>p a. (p - a :: real)\<^sup>2) y_pred y_true"
  by (subst map2_swap) (simp add: power2_commute)

text \<open>
  C8. For every target the evaluation statement computes the square root of the mean of
  the squared differences between the predictions and the targets of the evaluation
  partition, binds it to the error variable of that target and prints it; every other
  variable of the notebook keeps its value.
\<close>

theorem rmse_stmt_value:
  assumes "y_hat_for s tg = Some y_hat" and "length y_hat = length (Y_test s)"
    and "Y_test s \<noteq> []"
  shows "\<exists>s'. rmse_stmt tg s = Inr s'
       \<and> rmse_for s' tg = Some (sqrt (mean (map2 (\<lambda>prediction actual. (prediction - actual)\<^sup>2)
                                 y_hat (column (target_column tg) (Y_test s)))))
       \<and> stdout s' = stdout s @ [sqrt (mean (map2 (\<lambda>prediction actual. (prediction - actual)\<^sup>2)
                                 y_hat (column (target_column tg) (Y_test s))))]
       \<and> X_train s' = X_train s \<and> X_test s' = X_test s
       \<and> Y_train s' = Y_train s \<and> Y_test s' = Y_test s
       \<and> pipeline s' = pipeline s \<and> y_hat_for s' = y_hat_for s
       \<and> (\<forall>tg'. tg' \<noteq> tg \<longrightarrow> rmse_for s' tg' = rmse_for s tg')"
  using assms
  by (simp add: rmse_stmt_def mean_squared_error_def squared_differences)

theorem rmse_stmt_value_witness:
  "rmse_stmt Tx
     \<lparr>X_train = [], X_test = [], Y_train = [], Y_test = [[1, 0, 0], [1, 0, 0]],
      pipeline = new_Pipeline 2, y_hat_for = (\<lambda>tg. None)(Tx := Some [2, 0]),
      rmse_for = (\<lambda>tg. None), stdout = []\<rparr>
   = Inr \<lparr>X_train = [], X_test = [], Y_train = [], Y_test = [[1, 0, 0], [1, 0, 0]],
      pipeline = new_Pipeline 2, y_hat_for = (\<lambda>tg. None)(Tx := Some [2, 0]),
      rmse_for = (\<lambda>tg. None)(Tx := Some 1), stdout = [1]\<rparr>"
proof -
  let ?s = "\<lparr>X_train = [], X_test = [], Y_train = [], Y_test = [[1, 0, 0], [1, 0, 0]],
      pipeline = new_Pipeline 2, y_hat_for = (\<lambda>tg. None)(Tx := Some [2, 0]),
      rmse_for = (\<lambda>tg. None), stdout = []\<rparr>"
  have "y_hat_for ?s Tx = Some [2, 0]" "length [2, 0 :: real] = length (Y_test ?s)"
    "Y_test ?s \<noteq> []"
    by simp_all
  from rmse_stmt_value [OF this] obtain s' where s': "rmse_stmt Tx ?s = Inr s'"
    "rmse_for s' Tx = Some (sqrt (mean (map2 (\<lambda>prediction actual. (prediction - actual)\<^sup>2)
                                 [2, 0] (column (target_column Tx) (Y_test ?s)))))"
    by blast
  have "s' = ?s\<lparr>rmse_for := (\<lambda>tg. None)(Tx := Some 1), stdout := [1]\<rparr>"
    using s'(1) by (simp add: rmse_stmt_def mean_squared_error_def mean_def column_def)
  with s'(1) show ?thesis by simp
qed

subsection \<open>Vectors\<close>

text \<open>
  Sums of products, and combinations of columns, of lists of reals.
\<close>

lemma length_vadd [simp]: "length (vadd u v) = min (length u) (length v)"
  by (simp add: vadd_def)

lemma length_vsub [simp]: "length (vsub u v) = min (length u) (length v)"
  by (simp add: vsub_def)

lemma length_vscale [simp]: "length (vscale c v) = length v"
  by (simp add: vscale_def)

lemma nth_vadd [simp]: "i < length u \<Longrightarrow> i < length v \<Longrightarrow> vadd u v ! i = u ! i + v ! i"
  by (simp add: vadd_def)

lemma nth_vsub [simp]: "i < length u \<Longrightarrow> i < length v \<Longrightarrow> vsub u v ! i = u ! i - v ! i"
  by (simp add: vsub_def)

lemma dot_Nil [simp]: "dot [] v = 0" "dot u [] = 0"
  by (simp_all add: dot_def)

lemma dot_Cons [simp]: "dot (a # u) (b # v) = a * b + dot u v"
  by (simp add: dot_def)

lemma dot_commute: "dot u v = dot v u"
  by (induction u arbitrary: v) (case_tac [!] v, simp_all)

lemma dot_vscale_left [simp]: "dot (vscale c u) v = c * dot u v"
proof (induction u arbitrary: v)
  case Nil
  then show ?case by (simp add: vscale_def)
next
  case (Cons a u)
  then show ?case by (cases v) (simp_all add: vscale_def algebra_simps)
qed

lemma dot_vscale_right [simp]: "dot u (vscale c v) = c * dot u v"
  by (metis dot_commute dot_vscale_left)

lemma dot_vadd_left:
  "length u = length v \<Longrightarrow> dot (vadd u v) w = dot u w + dot v w"
proof (induction u v arbitrary: w rule: list_induct2)
  case Nil
  then show ?case by (simp add: vadd_def)
next
  case (Cons a u b v)
  then show ?case by (cases w) (simp_all add: vadd_def algebra_simps)
qed

lemma dot_vsub_left:
  "length u = length v \<Longrightarrow> dot (vsub u v) w = dot u w - dot v w"
proof (induction u v arbitrary: w rule: list_induct2)
  case Nil
  then show ?case by (simp add: vsub_def)
next
  case (Cons a u b v)
  then show ?case by (cases w) (simp_all add: vsub_def algebra_simps)
qed

lemma dot_vadd_right:
  "length v = length w \<Longrightarrow> dot u (vadd v w) = dot u v + dot u w"
  by (metis dot_commute dot_vadd_left)

lemma dot_vsub_right:
  "length v = length w \<Longrightarrow> dot u (vsub v w) = dot u v - dot u w"
  by (metis dot_commute dot_vsub_left)

lemma dot_vadd_vscale:
  "length d = length v \<Longrightarrow> dot (vadd (vscale c d) v) z = c * dot d z + dot v z"
  by (simp add: dot_vadd_left)

lemma dot_replicate_zero [simp]: "dot u (replicate m 0) = 0"
  by (induction u arbitrary: m) (case_tac [!] m, simp_all)

lemma dot_replicate: "dot e (replicate (length e) c) = c * sum_list e"
  by (induction e) (simp_all add: algebra_simps)

lemma dot_ones: "dot (replicate (length c) 1) c = sum_list c"
  by (induction c) simp_all

lemma dot_map_zero: "(\<And>a. a \<in> set A \<Longrightarrow> f a = 0) \<Longrightarrow> dot d (map f A) = 0"
  by (induction A arbitrary: d) (case_tac [!] d, simp_all)

lemma dot_map_diff:
  "dot (map (\<lambda>p. f p - g p * c) P) z = dot (map f P) z - c * dot (map g P) z"
  by (induction P arbitrary: z) (case_tac [!] z, simp_all add: algebra_simps)

lemma dot_map_diff_right:
  "dot v (map (\<lambda>p. f p - g p * c) P) = dot v (map f P) - c * dot v (map g P)"
  by (metis dot_commute dot_map_diff)

lemma dot_self_nonneg: "0 \<le> dot c c"
  by (induction c) simp_all

lemma dot_self_zero:
  assumes "dot c c = 0"
  shows "dot v c = 0"
  using assms
proof (induction c arbitrary: v)
  case Nil
  then show ?case by simp
next
  case (Cons a c)
  have "0 \<le> dot c c" by (induction c) simp_all
  with Cons.prems have "a = 0" "dot c c = 0"
    by (simp_all add: add_nonneg_eq_0_iff)
  with Cons.IH show ?case by (cases v) simp_all
qed

lemma dot_affine:
  "length ms = length t \<Longrightarrow> length ss = length t \<Longrightarrow> length c = length t \<Longrightarrow>
     dot (map2 (\<lambda>v (m, s). (v - m) / s) t (zip ms ss)) c
   = dot t (map2 (/) c ss) - dot ms (map2 (/) c ss)"
proof (induction t arbitrary: ms ss c)
  case Nil
  then show ?case by simp
next
  case (Cons v t)
  then obtain m ms' s ss' a c' where "ms = m # ms'" "ss = s # ss'" "c = a # c'"
    by (metis length_Suc_conv)
  with Cons show ?case by (simp add: algebra_simps diff_divide_distrib)
qed

lemma dot_affine_scaled:
  "length ms = length t \<Longrightarrow> length ss = length t \<Longrightarrow> length w = length t \<Longrightarrow>
   \<forall>s\<in>set ss. s \<noteq> 0 \<Longrightarrow>
     dot (map2 (\<lambda>v (m, s). (v - m) / s) t (zip ms ss)) (map2 (*) w ss) = dot t w - dot ms w"
proof (induction t arbitrary: ms ss w)
  case Nil
  then show ?case by simp
next
  case (Cons v t)
  then obtain m ms' s ss' a w' where eq: "ms = m # ms'" "ss = s # ss'" "w = a # w'"
    by (metis length_Suc_conv)
  with Cons.prems have s: "s \<noteq> 0" by simp
  from Cons.prems eq have
    "dot (map2 (\<lambda>v (m, s). (v - m) / s) t (zip ms' ss')) (map2 (*) w' ss') = dot t w' - dot ms' w'"
    by (intro Cons.IH) simp_all
  then have "dot (map2 (\<lambda>v (m, s). (v - m) / s) (v # t) (zip ms ss)) (map2 (*) w ss)
      = (v - m) / s * (a * s) + (dot t w' - dot ms' w')"
    by (simp add: eq)
  also have "(v - m) / s * (a * s) = (v - m) * a"
    using s by simp
  finally show ?case by (simp add: eq algebra_simps)
qed

lemma map_dot_vsub:
  "length w = length w' \<Longrightarrow>
     map (\<lambda>r. dot r (vsub w w')) A = vsub (map (\<lambda>r. dot r w) A) (map (\<lambda>r. dot r w') A)"
  by (induction A) (simp_all add: vsub_def dot_vsub_right [unfolded vsub_def])

lemma sum_list_vadd: "length u = length v \<Longrightarrow> sum_list (vadd u v) = sum_list u + sum_list v"
  by (induction u v rule: list_induct2) (simp_all add: vadd_def)

lemma sum_list_vsub: "length u = length v \<Longrightarrow> sum_list (vsub u v) = sum_list u - sum_list v"
  by (induction u v rule: list_induct2) (simp_all add: vsub_def)

lemma squared_error_dot: "squared_error u v = dot (vsub u v) (vsub u v)"
  unfolding squared_error_def vsub_def
  by (induction u arbitrary: v) (case_tac [!] v, simp_all add: power2_eq_square)

lemma length_lincomb:
  "\<forall>a\<in>set A. length a = m \<Longrightarrow> length (lincomb m w A) = m"
  by (induction m w A rule: lincomb.induct) simp_all

lemma dot_lincomb:
  "\<forall>a\<in>set A. length a = m \<Longrightarrow> dot v (lincomb m w A) = dot w (map (dot v) A)"
  by (induction m w A rule: lincomb.induct) (simp_all add: dot_vadd_right length_lincomb)

lemma nth_lincomb:
  "\<forall>a\<in>set A. length a = m \<Longrightarrow> i < m \<Longrightarrow> lincomb m w A ! i = dot w (map (\<lambda>a. a ! i) A)"
  by (induction m w A rule: lincomb.induct) (simp_all add: length_lincomb vscale_def)

text \<open>A matrix times a vector, by rows and by columns.\<close>

lemma rows_columns:
  assumes "\<forall>r\<in>set A. length r = n_features A"
  shows "map (\<lambda>r. dot r w) A = lincomb (length A) w (columns A)"
proof (rule nth_equalityI)
  show "length (map (\<lambda>r. dot r w) A) = length (lincomb (length A) w (columns A))"
    by (simp add: length_lincomb [OF columns_length])
next
  fix i assume "i < length (map (\<lambda>r. dot r w) A)"
  then have i: "i < length A" by simp
  then show "map (\<lambda>r. dot r w) A ! i = lincomb (length A) w (columns A) ! i"
    by (simp add: nth_lincomb [OF columns_length] columns_nth_row [OF assms] dot_commute)
qed

subsection \<open>The least-squares solver\<close>

lemma map2_map_same: "map2 f xs (map g xs) = map (\<lambda>x. f x (g x)) xs"
  by (induction xs) simp_all

lemma greville_shape:
  assumes "\<forall>a\<in>set A. length a = m"
  shows "length (greville m A) = length A \<and> (\<forall>p\<in>set (greville m A). length p = m)"
  using assms
proof (induction A)
  case Nil
  then show ?case by simp
next
  case (Cons a A)
  then have IH: "length (greville m A) = length A" "\<forall>p\<in>set (greville m A). length p = m"
    and la: "length a = m" and cols: "\<forall>a\<in>set A. length a = m"
    by simp_all
  define d where "d = map (\<lambda>p. dot p a) (greville m A)"
  define c where "c = vsub a (lincomb m d A)"
  define b where "b = (if dot c c = 0 then vscale (1 / (1 + dot d d)) (lincomb m d (greville m A))
               else vscale (1 / dot c c) c)"
  have g: "greville m (a # A)
         = b # map (\<lambda>p. vsub p (vscale (dot p a) b)) (greville m A)"
    by (simp add: Let_def b_def c_def d_def map2_map_same)
  have "length c = m"
    by (simp add: c_def la length_lincomb [OF cols])
  then have lb: "length b = m"
    by (simp add: b_def length_lincomb [OF IH(2)])
  show ?case
    unfolding g using IH lb by simp
qed

lemma length_fit_proj: "\<forall>a\<in>set A. length a = m \<Longrightarrow> length (fit_proj m A y) = m"
  by (simp add: fit_proj_def length_lincomb)

lemma length_lstsq:
  "length (lstsq A b) = n_features A"
  using greville_shape [OF columns_length, of A] by (simp add: lstsq_def pinv_def)

lemma greville_Cons:
  assumes "\<forall>a'\<in>set (a # A). length a' = m"
  shows "greville m (a # A)
       = hd (greville m (a # A))
         # map (\<lambda>p. vsub p (vscale (dot p a) (hd (greville m (a # A))))) (greville m A)"
    and "length (hd (greville m (a # A))) = m"
    and "dot (vsub a (fit_proj m A a)) (vsub a (fit_proj m A a)) \<noteq> 0 \<Longrightarrow>
         hd (greville m (a # A))
       = vscale (1 / dot (vsub a (fit_proj m A a)) (vsub a (fit_proj m A a)))
           (vsub a (fit_proj m A a))"
proof -
  show "greville m (a # A)
       = hd (greville m (a # A))
         # map (\<lambda>p. vsub p (vscale (dot p a) (hd (greville m (a # A))))) (greville m A)"
    by (simp add: Let_def map2_map_same)
  from greville_shape [OF assms] show "length (hd (greville m (a # A))) = m"
    by (simp add: Let_def)
  show "hd (greville m (a # A))
       = vscale (1 / dot (vsub a (fit_proj m A a)) (vsub a (fit_proj m A a)))
           (vsub a (fit_proj m A a))"
    if "dot (vsub a (fit_proj m A a)) (vsub a (fit_proj m A a)) \<noteq> 0"
    using that by (simp add: Let_def fit_proj_def)
qed

lemma fit_proj_Cons:
  assumes cols: "\<forall>a'\<in>set (a # A). length a' = m" and u: "length u = m" and y: "length y = m"
  shows "dot u (fit_proj m (a # A) y)
       = dot u (fit_proj m A y)
         + dot (hd (greville m (a # A))) y * dot u (vsub a (fit_proj m A a))"
proof -
  define b where "b = hd (greville m (a # A))"
  from cols have la: "length a = m" and colsA: "\<forall>a'\<in>set A. length a' = m" by simp_all
  note shape = greville_shape [OF colsA]
  have lb: "length b = m" unfolding b_def by (rule greville_Cons(2) [OF cols])
  have ws: "map ((\<lambda>p. dot p y) \<circ> (\<lambda>p. vsub p (vscale (dot p a) b))) (greville m A)
          = map (\<lambda>p. dot p y - dot p a * dot b y) (greville m A)"
    using shape lb by (simp add: dot_vsub_left)
  have g: "greville m (a # A) = b # map (\<lambda>p. vsub p (vscale (dot p a) b)) (greville m A)"
    unfolding b_def by (rule greville_Cons(1) [OF cols])
  have "fit_proj m (a # A) y
      = vadd (vscale (dot b y) a)
          (lincomb m (map (\<lambda>p. dot p y - dot p a * dot b y) (greville m A)) A)"
    unfolding fit_proj_def g by (simp add: ws)
  then have "dot u (fit_proj m (a # A) y)
      = dot b y * dot u a
        + dot (map (\<lambda>p. dot p y - dot p a * dot b y) (greville m A)) (map (dot u) A)"
    by (simp add: dot_vadd_right la length_lincomb [OF colsA] dot_lincomb [OF colsA])
  also have "\<dots> = dot b y * dot u a
        + (dot u (fit_proj m A y) - dot b y * dot u (fit_proj m A a))"
    by (simp add: dot_map_diff fit_proj_def dot_lincomb [OF colsA])
  also have "\<dots> = dot u (fit_proj m A y) + dot b y * dot u (vsub a (fit_proj m A a))"
    by (simp add: dot_vsub_right la length_fit_proj [OF colsA] algebra_simps)
  finally show ?thesis by (simp add: b_def)
qed

text \<open>
  What the solver guarantees: the fitted values are a symmetric function of the target,
  and they have the same product with every column as the target has. The second is the
  system of normal equations of least squares.
\<close>

lemma greville_normal:
  assumes "\<forall>a\<in>set A. length a = m"
  shows "(\<forall>u y. length u = m \<longrightarrow> length y = m \<longrightarrow>
            dot u (fit_proj m A y) = dot y (fit_proj m A u))
       \<and> (\<forall>a\<in>set A. \<forall>y. length y = m \<longrightarrow> dot a (fit_proj m A y) = dot a y)"
  using assms
proof (induction A)
  case Nil
  then show ?case by (simp add: fit_proj_def)
next
  case (Cons a A)
  then have cols: "\<forall>a'\<in>set (a # A). length a' = m" and la: "length a = m"
    and colsA: "\<forall>a'\<in>set A. length a' = m"
    by simp_all
  from Cons.IH [OF colsA]
  have sym': "\<And>u y. length u = m \<Longrightarrow> length y = m \<Longrightarrow>
        dot u (fit_proj m A y) = dot y (fit_proj m A u)"
    and orth': "\<And>a' y. a' \<in> set A \<Longrightarrow> length y = m \<Longrightarrow> dot a' (fit_proj m A y) = dot a' y"
    by blast+
  define c where "c = vsub a (fit_proj m A a)"
  define b where "b = hd (greville m (a # A))"
  define N where "N = dot c c"
  have lfp: "length (fit_proj m A v) = m" for v
    by (rule length_fit_proj [OF colsA])
  have lc: "length c = m" by (simp add: c_def la lfp)
  have K: "dot u (fit_proj m (a # A) y) = dot u (fit_proj m A y) + dot b y * dot u c"
    if "length u = m" "length y = m" for u y
    unfolding b_def c_def using cols that by (rule fit_proj_Cons)
  have uc: "dot u c = dot u a - dot u (fit_proj m A a)" for u
    by (simp add: c_def dot_vsub_right la lfp)
  have perp: "dot a' c = 0" if "a' \<in> set A" for a'
    using that colsA by (simp add: uc orth' la)
  have "dot (fit_proj m A a) c = 0"
  proof -
    have "dot c (lincomb m (map (\<lambda>p. dot p a) (greville m A)) A) = 0"
      unfolding dot_lincomb [OF colsA]
      by (rule dot_map_zero) (simp add: perp dot_commute [of c])
    then show ?thesis by (simp add: fit_proj_def dot_commute [of c])
  qed
  then have ac: "dot a c = N"
    by (simp add: N_def c_def [symmetric] dot_vsub_left [of a "fit_proj m A a" c, folded c_def] la lfp)
  have bN: "dot b y = dot c y / N" if "N \<noteq> 0" for y
    using that greville_Cons(3) [OF cols] by (simp add: b_def c_def N_def)
  have zero: "dot u c = 0" if "N = 0" for u
    using that by (simp add: N_def dot_self_zero)
  have sym: "dot u (fit_proj m (a # A) y) = dot y (fit_proj m (a # A) u)"
    if u: "length u = m" and y: "length y = m" for u y
  proof (cases "N = 0")
    case True
    with K [OF u y] K [OF y u] sym' [OF u y] show ?thesis by (simp add: zero)
  next
    case False
    with K [OF u y] K [OF y u] sym' [OF u y] show ?thesis
      by (simp add: bN dot_commute [of c])
  qed
  have orth_a: "dot a (fit_proj m (a # A) y) = dot a y" if y: "length y = m" for y
  proof (cases "N = 0")
    case True
    from zero [OF True, of y] have "dot y (fit_proj m A a) = dot y a" by (simp add: uc)
    with K [OF la y] sym' [OF la y] show ?thesis
      by (simp add: zero [OF True] dot_commute [of a y])
  next
    case False
    have "dot c y = dot a y - dot y (fit_proj m A a)"
      by (simp add: dot_commute [of c] uc dot_commute [of a y])
    with K [OF la y] sym' [OF la y] False show ?thesis
      by (simp add: bN ac)
  qed
  have orth_A: "dot a' (fit_proj m (a # A) y) = dot a' y"
    if "a' \<in> set A" and y: "length y = m" for a' y
  proof -
    from that colsA have "length a' = m" by simp
    from K [OF this y] show ?thesis by (simp add: perp that orth')
  qed
  from sym orth_a orth_A show ?case by auto
qed

text \<open>
  The coefficients of the solver are orthogonal to every vector that the matrix sends to
  zero: a combination of the columns that vanishes also vanishes on the rows of the
  pseudo-inverse. This is what makes the solution the one of least norm.
\<close>

lemma greville_null:
  assumes "\<forall>a\<in>set A. length a = m" and "length v = length A"
    and "\<And>u. length u = m \<Longrightarrow> dot v (map (dot u) A) = 0"
    and "length u = m"
  shows "dot v (map (dot u) (greville m A)) = 0"
  using assms
proof (induction A arbitrary: v u)
  case Nil
  then show ?case by simp
next
  case (Cons a A)
  then have cols: "\<forall>a'\<in>set (a # A). length a' = m" and la: "length a = m"
    and colsA: "\<forall>a'\<in>set A. length a' = m"
    by simp_all
  from Cons.prems(2) obtain v0 v' where v: "v = v0 # v'" and lv': "length v' = length A"
    by (cases v) auto
  note shape = greville_shape [OF colsA]
  note normal = greville_normal [OF colsA]
  define d where "d = map (\<lambda>p. dot p a) (greville m A)"
  define c where "c = vsub a (fit_proj m A a)"
  define b where "b = hd (greville m (a # A))"
  define N where "N = dot c c"
  have ld: "length d = length A" by (simp add: d_def shape)
  have lfp: "length (fit_proj m A x) = m" for x by (rule length_fit_proj [OF colsA])
  have lc: "length c = m" by (simp add: c_def la lfp)
  have g: "greville m (a # A) = b # map (\<lambda>p. vsub p (vscale (dot p a) b)) (greville m A)"
    unfolding b_def by (rule greville_Cons(1) [OF cols])
  have lb: "length b = m" unfolding b_def by (rule greville_Cons(2) [OF cols])
  have Z: "v0 * dot x a + dot v' (map (dot x) A) = 0" if "length x = m" for x
    using Cons.prems(3) [OF that] by (simp add: v)
  have new: "dot v (map (dot x) (greville m (a # A)))
           = dot x b * (v0 - dot v' d) + dot v' (map (dot x) (greville m A))"
    if x: "length x = m" for x
  proof -
    have ws: "map (dot x \<circ> (\<lambda>p. vsub p (vscale (dot p a) b))) (greville m A)
        = map (\<lambda>p. dot x p - dot p a * dot x b) (greville m A)"
      using shape lb by (simp add: dot_vsub_right)
    show ?thesis
      unfolding g by (simp add: ws v dot_map_diff_right d_def algebra_simps)
  qed
  have perp: "dot c a' = 0" if "a' \<in> set A" for a'
  proof -
    from that colsA have "length a' = m" by simp
    with normal that have "dot a' (fit_proj m A a) = dot a' a" by (simp add: la)
    then have "dot a' c = 0"
      by (simp add: c_def dot_vsub_right la lfp)
    then show ?thesis by (simp add: dot_commute [of c])
  qed
  have dd: "dot x' d = dot x' (map (dot a) (greville m A))" for x'
    by (simp add: d_def dot_commute [of _ a])
  show ?case
  proof (cases "N = 0")
    case False
    have "dot (fit_proj m A a) c = 0"
    proof -
      have "dot c (lincomb m d A) = 0"
        unfolding dot_lincomb [OF colsA] by (rule dot_map_zero) (simp add: perp)
      then show ?thesis by (simp add: fit_proj_def d_def dot_commute [of c])
    qed
    then have "dot c a = N"
      by (simp add: N_def dot_commute [of c a]
            dot_vsub_left [of a "fit_proj m A a" c, folded c_def] la lfp)
    moreover have "dot v' (map (dot c) A) = 0"
      by (rule dot_map_zero) (simp add: perp)
    ultimately have "v0 * N = 0" using Z [OF lc] by simp
    with False have v0: "v0 = 0" by simp
    have IH: "dot v' (map (dot x) (greville m A)) = 0" if "length x = m" for x
      using colsA lv' _ that
    proof (rule Cons.IH)
      fix x' :: vec assume "length x' = m"
      from Z [OF this] show "dot v' (map (dot x') A) = 0" by (simp add: v0)
    qed
    from IH [OF la] have "dot v' d = 0" by (simp add: dd)
    with new [OF Cons.prems(4)] IH [OF Cons.prems(4)] show ?thesis by (simp add: v0)
  next
    case True
    then have c0: "dot x c = 0" for x by (simp add: N_def dot_self_zero)
    have xa: "dot x a = dot d (map (dot x) A)" for x
    proof -
      from c0 [of x] have "dot x a = dot x (fit_proj m A a)"
        by (simp add: c_def dot_vsub_right la lfp)
      then show ?thesis by (simp add: fit_proj_def dot_lincomb [OF colsA] d_def)
    qed
    define x where "x = vadd (vscale v0 d) v'"
    have lx: "length x = length A" by (simp add: x_def ld lv')
    have IH: "dot x (map (dot z) (greville m A)) = 0" if "length z = m" for z
      using colsA lx _ that
    proof (rule Cons.IH)
      fix z' :: vec assume "length z' = m"
      from Z [OF this] show "dot x (map (dot z') A) = 0"
        by (simp add: x_def dot_vadd_vscale ld lv' xa [of z'])
    qed
    have star: "v0 * dot d (map (dot z) (greville m A)) + dot v' (map (dot z) (greville m A)) = 0"
      if "length z = m" for z
      using IH [OF that] by (simp add: x_def dot_vadd_vscale ld lv')
    have b: "b = vscale (1 / (1 + dot d d)) (lincomb m d (greville m A))"
      using True by (simp add: b_def N_def c_def fit_proj_def d_def Let_def)
    have D: "1 + dot d d \<noteq> 0"
      using dot_self_nonneg [of d] by simp
    have ub: "dot d (map (dot z) (greville m A)) = (1 + dot d d) * dot z b" for z
      using D shape by (simp add: b dot_lincomb)
    have xd: "v0 * dot d d + dot v' d = 0"
      using IH [OF la] by (simp add: x_def dot_vadd_vscale ld lv' dd [symmetric])
    have "dot v (map (dot u) (greville m (a # A)))
        = dot u b * (v0 - dot v' d) + dot v' (map (dot u) (greville m A))"
      by (rule new [OF Cons.prems(4)])
    also have "dot v' (map (dot u) (greville m A)) = - v0 * ((1 + dot d d) * dot u b)"
      using star [OF Cons.prems(4)] by (simp add: ub)
    also have "dot u b * (v0 - dot v' d) + - v0 * ((1 + dot d d) * dot u b)
        = - dot u b * (v0 * dot d d + dot v' d)"
      by (simp add: algebra_simps)
    finally show ?thesis by (simp add: xd)
  qed
qed

text \<open>
  The residual of the solver is orthogonal to every combination of the columns, and, when
  the columns and the target are centred, its entries sum to zero.
\<close>

lemma residual_orthogonal:
  assumes rect: "\<forall>r\<in>set A. length r = n_features A" and y: "length y = length A"
  shows "dot (vsub y (map (\<lambda>r. dot r (lstsq A y)) A)) (map (\<lambda>r. dot r v) A) = 0"
proof -
  let ?n = "length A"
  note cl = columns_length [of A]
  note normal = greville_normal [OF cl]
  have fit: "map (\<lambda>r. dot r (lstsq A y)) A = fit_proj ?n (columns A) y"
    by (simp add: rows_columns [OF rect] fit_proj_def lstsq_def pinv_def)
  have "dot (vsub y (fit_proj ?n (columns A) y)) c = 0" if "c \<in> set (columns A)" for c
  proof -
    from normal that y have "dot c (fit_proj ?n (columns A) y) = dot c y" by blast
    then have "dot (fit_proj ?n (columns A) y) c = dot y c"
      by (simp add: dot_commute [of _ c])
    then show ?thesis
      by (simp add: dot_vsub_left y length_fit_proj [OF cl])
  qed
  then have "dot v (map (dot (vsub y (fit_proj ?n (columns A) y))) (columns A)) = 0"
    by (intro dot_map_zero) simp
  then show ?thesis
    by (simp add: fit rows_columns [OF rect, of v] dot_lincomb [OF cl])
qed

subsection \<open>Linear regression\<close>

lemma LinearRegression_fit_Inr:
  "LinearRegression_fit X y = Inr m \<longleftrightarrow>
     check_array X \<and> length y = length X
   \<and> m = \<lparr>coef = lstsq (map (\<lambda>r. vsub r (map mean (columns X))) X)
                    (map (\<lambda>v. v - mean y) y),
          intercept = mean y - dot (map mean (columns X))
                    (lstsq (map (\<lambda>r. vsub r (map mean (columns X))) X)
                       (map (\<lambda>v. v - mean y) y))\<rparr>"
  by (auto simp: LinearRegression_fit_def Let_def)

lemma length_coef:
  assumes "LinearRegression_fit X y = Inr m"
  shows "length (coef m) = n_features X"
proof -
  from assms have ok: "check_array X"
    and m: "coef m = lstsq (map (\<lambda>r. vsub r (map mean (columns X))) X) (map (\<lambda>v. v - mean y) y)"
    by (simp_all add: LinearRegression_fit_Inr)
  from ok have X: "X \<noteq> []" and rows: "\<And>r. r \<in> set X \<Longrightarrow> length r = n_features X"
    by (simp_all add: check_array_def)
  have "n_features (map (\<lambda>r. vsub r (map mean (columns X))) X) = n_features X"
    using X by (rule n_features_map) (simp add: rows)
  then show ?thesis by (simp add: m length_lstsq)
qed

text \<open>
  The sum of squared residuals of any linear model with intercept is that of the fitted
  one plus the squared distance between the two vectors of predictions. The difference of
  the predictions is written with the centred features.
\<close>

lemma centred_columns:
  assumes "check_array X"
  shows "\<forall>r\<in>set (map (\<lambda>r. vsub r (map mean (columns X))) X).
           length r = n_features (map (\<lambda>r. vsub r (map mean (columns X))) X)"
    and "n_features (map (\<lambda>r. vsub r (map mean (columns X))) X) = n_features X"
    and "sum_list (map (\<lambda>r. dot r v) (map (\<lambda>r. vsub r (map mean (columns X))) X)) = 0"
proof -
  define xbar where "xbar = map mean (columns X)"
  define Xc where "Xc = map (\<lambda>r. vsub r xbar) X"
  define n where "n = length X"
  from assms have X: "X \<noteq> []" and rows: "\<And>r. r \<in> set X \<Longrightarrow> length r = n_features X"
    by (simp_all add: check_array_def)
  have lx: "length xbar = n_features X" by (simp add: xbar_def)
  have nXc: "n_features Xc = n_features X"
    unfolding Xc_def using X by (rule n_features_map) (simp add: rows lx)
  have rect: "\<forall>r\<in>set Xc. length r = n_features Xc"
    by (simp add: nXc) (simp add: Xc_def rows lx)
  have lXc: "length Xc = n" by (simp add: Xc_def n_def)
  have centred: "sum_list c = 0" if "c \<in> set (columns Xc)" for c
  proof -
    from that obtain j where j: "j < n_features X" and c: "c = column j Xc"
      by (auto simp: columns_def nXc)
    have "column j Xc = map (\<lambda>v. v - mean (column j X)) (column j X)"
      using j by (simp add: column_def Xc_def rows lx) (simp add: xbar_def column_def)
    with X show ?thesis by (simp add: c sum_list_centred)
  qed
  have "dot (replicate n 1) (lincomb n v (columns Xc)) = 0"
    unfolding dot_lincomb [OF columns_length [of Xc, unfolded lXc]]
  proof (rule dot_map_zero)
    fix c assume c: "c \<in> set (columns Xc)"
    with columns_length [of Xc] have "length c = n" by (simp add: lXc)
    with dot_ones [of c] centred [OF c] show "dot (replicate n 1) c = 0" by simp
  qed
  moreover have "length (lincomb n v (columns Xc)) = n"
    by (rule length_lincomb) (use columns_length [of Xc] in \<open>simp add: lXc\<close>)
  ultimately have "sum_list (map (\<lambda>r. dot r v) Xc) = 0"
    using dot_ones [of "lincomb n v (columns Xc)"]
    by (simp add: rows_columns [OF rect] lXc dot_commute)
  with rect nXc show
    "\<forall>r\<in>set (map (\<lambda>r. vsub r (map mean (columns X))) X).
       length r = n_features (map (\<lambda>r. vsub r (map mean (columns X))) X)"
    "n_features (map (\<lambda>r. vsub r (map mean (columns X))) X) = n_features X"
    "sum_list (map (\<lambda>r. dot r v) (map (\<lambda>r. vsub r (map mean (columns X))) X)) = 0"
    by (simp_all add: Xc_def xbar_def)
qed

lemma LinearRegression_pythagoras:
  assumes "LinearRegression_fit X y = Inr m"
  shows "squared_error y (map (\<lambda>r. dot r w' + b') X)
       = squared_error y (map (\<lambda>r. dot r (coef m) + intercept m) X)
         + dot (vadd (vsub (map (\<lambda>r. dot r (coef m)) (map (\<lambda>r. vsub r (map mean (columns X))) X))
                          (map (\<lambda>r. dot r w') (map (\<lambda>r. vsub r (map mean (columns X))) X)))
                    (replicate (length X) (mean y - dot (map mean (columns X)) w' - b')))
               (vadd (vsub (map (\<lambda>r. dot r (coef m)) (map (\<lambda>r. vsub r (map mean (columns X))) X))
                          (map (\<lambda>r. dot r w') (map (\<lambda>r. vsub r (map mean (columns X))) X)))
                    (replicate (length X) (mean y - dot (map mean (columns X)) w' - b')))"
proof -
  define xbar where "xbar = map mean (columns X)"
  define ybar where "ybar = mean y"
  define Xc where "Xc = map (\<lambda>r. vsub r xbar) X"
  define yc where "yc = map (\<lambda>v. v - ybar) y"
  define w where "w = lstsq Xc yc"
  define n where "n = length X"
  from assms have ok: "check_array X" and ly: "length y = n"
    and m: "coef m = w" "intercept m = ybar - dot xbar w"
    by (simp_all add: LinearRegression_fit_Inr xbar_def ybar_def Xc_def yc_def w_def n_def)
  from ok have X: "X \<noteq> []" and rows: "\<And>r. r \<in> set X \<Longrightarrow> length r = n_features X"
    by (simp_all add: check_array_def)
  have lx: "length xbar = n_features X" by (simp add: xbar_def)
  note cc = centred_columns [OF ok, folded xbar_def, folded Xc_def]
  have lXc: "length Xc = n" "length yc = n" by (simp_all add: Xc_def yc_def n_def ly)
  define e where "e = vsub yc (map (\<lambda>r. dot r w) Xc)"
  have le: "length e = n" by (simp add: e_def lXc)
  have orth: "dot e (map (\<lambda>r. dot r v) Xc) = 0" for v
    unfolding e_def w_def using cc(1) by (rule residual_orthogonal) (simp add: lXc)
  have "sum_list yc = 0"
    unfolding yc_def ybar_def using X ly by (intro sum_list_centred) (auto simp: n_def)
  with cc(3) [of w] have sum0: "sum_list e = 0"
    by (simp add: e_def sum_list_vsub lXc)
  define \<kappa> where "\<kappa> = ybar - dot xbar w' - b'"
  define \<delta> where "\<delta> = vadd (vsub (map (\<lambda>r. dot r w) Xc) (map (\<lambda>r. dot r w') Xc)) (replicate n \<kappa>)"
  have l\<delta>: "length \<delta> = n" by (simp add: \<delta>_def lXc)
  have row: "dot (vsub (X ! i) xbar) v = dot (X ! i) v - dot xbar v" if "i < n" for i v
    using that by (simp add: dot_vsub_left rows lx n_def)
  have R1: "vsub y (map (\<lambda>r. dot r (coef m) + intercept m) X) = e"
    by (rule nth_equalityI)
       (simp_all add: le ly n_def [symmetric] e_def yc_def Xc_def m row)
  have R2: "vsub y (map (\<lambda>r. dot r w' + b') X) = vadd e \<delta>"
    by (rule nth_equalityI)
       (simp_all add: le l\<delta> ly n_def [symmetric], simp add: e_def \<delta>_def yc_def Xc_def row \<kappa>_def ly n_def [symmetric])
  have "dot e \<delta> = 0"
    using dot_replicate [of e \<kappa>]
    by (simp add: \<delta>_def dot_vadd_right dot_vsub_right lXc orth le sum0)
  then have "dot (vadd e \<delta>) (vadd e \<delta>) = dot e e + dot \<delta> \<delta>"
    by (simp add: dot_vadd_left dot_vadd_right le l\<delta> dot_commute [of \<delta> e])
  then have "squared_error y (map (\<lambda>r. dot r w' + b') X)
       = squared_error y (map (\<lambda>r. dot r (coef m) + intercept m) X) + dot \<delta> \<delta>"
    by (simp add: squared_error_dot R1 R2)
  then show ?thesis
    unfolding \<delta>_def \<kappa>_def m(1) [symmetric] Xc_def xbar_def ybar_def n_def .
qed

text \<open>
  The fitted linear model has the least sum of squared residuals on its training data
  among all linear models with an intercept.
\<close>

lemma LinearRegression_least_squares:
  assumes "LinearRegression_fit X y = Inr m"
  shows "squared_error y (map (\<lambda>r. dot r (coef m) + intercept m) X)
       \<le> squared_error y (map (\<lambda>r. dot r w' + b') X)"
  unfolding LinearRegression_pythagoras [OF assms, of w' b'] by (simp add: dot_self_nonneg)

text \<open>
  Among the linear models with intercept that fit the training data as well as the fitted
  one, the fitted one has the coefficient vector of least norm.
\<close>

lemma LinearRegression_minimum_norm:
  assumes fit: "LinearRegression_fit X y = Inr m" and lw': "length w' = n_features X"
    and le: "squared_error y (map (\<lambda>r. dot r w' + b') X)
           \<le> squared_error y (map (\<lambda>r. dot r (coef m) + intercept m) X)"
  shows "dot (coef m) (coef m) \<le> dot w' w'"
proof -
  define xbar where "xbar = map mean (columns X)"
  define Xc where "Xc = map (\<lambda>r. vsub r xbar) X"
  define yc where "yc = map (\<lambda>v. v - mean y) y"
  define n where "n = length X"
  define w where "w = coef m"
  define \<kappa> where "\<kappa> = mean y - dot xbar w' - b'"
  define \<delta> where "\<delta> = vadd (vsub (map (\<lambda>r. dot r w) Xc) (map (\<lambda>r. dot r w') Xc)) (replicate n \<kappa>)"
  from fit have ok: "check_array X" and ly: "length y = n" and w: "w = lstsq Xc yc"
    by (simp_all add: LinearRegression_fit_Inr xbar_def Xc_def yc_def n_def w_def)
  from ok have n: "0 < n" by (simp add: check_array_def n_def)
  note cc = centred_columns [OF ok, folded xbar_def, folded Xc_def]
  have lXc: "length Xc = n" "length yc = n" by (simp_all add: Xc_def yc_def n_def ly)
  have lw: "length w = n_features X" unfolding w_def by (rule length_coef [OF fit])
  have l\<delta>: "length \<delta> = n" by (simp add: \<delta>_def lXc)
  from LinearRegression_pythagoras [OF fit, of w' b'] le have "dot \<delta> \<delta> \<le> 0"
    by (simp add: \<delta>_def \<kappa>_def Xc_def xbar_def n_def w_def)
  with dot_self_nonneg [of \<delta>] have "dot \<delta> \<delta> = 0" by simp
  then have zero: "dot u \<delta> = 0" for u by (rule dot_self_zero)
  have "sum_list \<delta> = real n * \<kappa>"
    by (simp add: \<delta>_def sum_list_vadd sum_list_vsub lXc cc(3) sum_list_replicate)
  moreover from zero [of "replicate (length \<delta>) 1"] have "sum_list \<delta> = 0"
    by (simp add: dot_ones)
  ultimately have \<kappa>: "\<kappa> = 0" using n by simp
  define v where "v = vsub w w'"
  have lv: "length v = length (columns Xc)" by (simp add: v_def lw lw' cc(2))
  have Xv: "map (\<lambda>r. dot r v) Xc = vsub (map (\<lambda>r. dot r w) Xc) (map (\<lambda>r. dot r w') Xc)"
    unfolding v_def by (rule map_dot_vsub) (simp add: lw lw')
  note cl = columns_length [of Xc, unfolded lXc]
  have null: "dot v (map (dot u) (columns Xc)) = 0" if "length u = n" for u
  proof -
    have "dot v (map (dot u) (columns Xc)) = dot u (map (\<lambda>r. dot r v) Xc)"
      by (simp add: rows_columns [OF cc(1)] lXc dot_lincomb [OF cl])
    also have "\<dots> = dot u \<delta>"
      by (simp add: Xv \<delta>_def \<kappa> dot_vadd_right lXc)
    finally show ?thesis by (simp add: zero)
  qed
  from greville_null [OF cl lv null lXc(2)]
  have "dot v (map (dot yc) (greville n (columns Xc))) = 0" by simp
  also have "map (dot yc) (greville n (columns Xc)) = w"
    by (simp add: w lstsq_def pinv_def lXc dot_commute [of yc])
  finally have vw: "dot v w = 0" .
  then have "dot w' w = dot w w"
    by (simp add: v_def dot_vsub_left lw lw')
  moreover have "dot v (vsub w w') = dot v w - dot v w'"
    by (rule dot_vsub_right) (simp add: lw lw')
  then have "dot v v = dot v w - dot v w'"
    by (simp add: v_def)
  moreover have "dot v w' = dot w w' - dot w' w'"
    by (simp add: v_def dot_vsub_left lw lw')
  ultimately have "dot v v = dot w' w' - dot w w"
    by (simp add: vw dot_commute [of w w'])
  with dot_self_nonneg [of v] show ?thesis by (simp add: w_def)
qed

subsection \<open>The pipeline\<close>

lemma powers_Cons: "powers n d = [] # tl (powers n d)"
  unfolding powers_def by (subst (1 2) upt_conv_Cons) (simp_all del: upt_Suc)

lemma length_poly_row [simp]: "length (poly_row d r) = length (powers (length r) d)"
  by (simp add: poly_row_def)

lemma poly_row_bias: "poly_row d r ! 0 = 1"
  by (subst poly_row_def, subst powers_Cons) simp

lemma length_powers_pos: "length (powers n d) \<noteq> 0"
  by (subst powers_Cons) simp

lemma powers_3_2:
  "powers 3 2 = [[], [0], [1], [2], [0, 0], [0, 1], [0, 2], [1, 1], [1, 2], [2, 2]]"
  by code_simp

lemma length_powers_3_2: "length (powers 3 2) = 10"
  by (simp add: powers_3_2)

lemma poly_row_3:
  "poly_row 2 [x, y, z] = [1, x, y, z, x * x, x * y, x * z, y * y, y * z, z * z]"
  using powers_3_2 by (simp add: poly_row_def numeral_3_eq_3)

lemma check_array_poly:
  assumes "check_array X"
  shows "check_array (map (poly_row d) X)"
    and "n_features (map (poly_row d) X) = length (powers (n_features X) d)"
proof -
  from assms have X: "X \<noteq> []" and rows: "\<And>r. r \<in> set X \<Longrightarrow> length r = n_features X"
    by (simp_all add: check_array_def)
  show "check_array (map (poly_row d) X)"
    using X length_powers_pos by (rule check_array_map) (simp add: rows)
  show "n_features (map (poly_row d) X) = length (powers (n_features X) d)"
    using X by (rule n_features_map) (simp add: rows)
qed

lemma Pipeline_fit_Inr:
  "Pipeline_fit p X y = Inr q \<longleftrightarrow>
     check_array X \<and> length y = length X
   \<and> (\<exists>sc m. StandardScaler_fit (map (poly_row (degree p)) X) = Inr sc
        \<and> LinearRegression_fit (map (standardize sc) (map (poly_row (degree p)) X)) y = Inr m
        \<and> q = p\<lparr>fitted := Some \<lparr>poly_features = n_features X, scaler = sc, model = m\<rparr>\<rparr>)"
proof (cases "check_array X")
  case False
  then show ?thesis
    by (simp add: Pipeline_fit_def PolynomialFeatures_fit_transform_def)
next
  case True
  note Xp = check_array_poly [OF True, of "degree p"]
  from Xp(1) obtain sc where sc: "StandardScaler_fit (map (poly_row (degree p)) X) = Inr sc"
    by (auto simp: StandardScaler_fit_def)
  note Xs = check_array_standardize [OF Xp(1) sc]
  have ft: "StandardScaler_fit_transform (map (poly_row (degree p)) X)
      = Inr (sc, map (standardize sc) (map (poly_row (degree p)) X))"
    by (simp add: StandardScaler_fit_transform_Inr sc)
  show ?thesis
  proof (cases "length y = length X")
    case False
    with True show ?thesis
      by (simp add: Pipeline_fit_def PolynomialFeatures_fit_transform_def ft
            LinearRegression_fit_def)
  next
    case len: True
    with Xs(1) obtain m where
      m: "LinearRegression_fit (map (standardize sc) (map (poly_row (degree p)) X)) y = Inr m"
      by (auto simp: LinearRegression_fit_def Let_def)
    from True len m show ?thesis
      by (auto simp: Pipeline_fit_def PolynomialFeatures_fit_transform_def ft sc
            split: sum.splits)
  qed
qed

lemma Pipeline_fit_Inl:
  "Pipeline_fit p X y = Inl e \<longleftrightarrow> e = ValueError \<and> \<not> (check_array X \<and> length y = length X)"
proof (cases "check_array X")
  case False
  then show ?thesis
    by (auto simp: Pipeline_fit_def PolynomialFeatures_fit_transform_def)
next
  case True
  note Xp = check_array_poly [OF True, of "degree p"]
  from Xp(1) obtain sc where sc: "StandardScaler_fit (map (poly_row (degree p)) X) = Inr sc"
    by (auto simp: StandardScaler_fit_def)
  note Xs = check_array_standardize [OF Xp(1) sc]
  have ft: "StandardScaler_fit_transform (map (poly_row (degree p)) X)
      = Inr (sc, map (standardize sc) (map (poly_row (degree p)) X))"
    by (simp add: StandardScaler_fit_transform_Inr sc)
  from True Xs(1) show ?thesis
    by (auto simp: Pipeline_fit_def PolynomialFeatures_fit_transform_def ft
          LinearRegression_fit_def Let_def)
qed

text \<open>
  The matrix that the regression step is fitted on always has a zero column: the constant
  term of the expansion, standardised.
\<close>

lemma standardised_design_rank_deficient:
  assumes "check_array X"
    and "StandardScaler_fit (map (poly_row d) X) = Inr sc"
  shows "rank_deficient (map (standardize sc) (map (poly_row d) X))"
proof -
  let ?Xp = "map (poly_row d) X"
  let ?k = "length (powers (n_features X) d)"
  note Xp = check_array_poly [OF assms(1), of d]
  note Xs = check_array_standardize [OF Xp(1) assms(2)]
  from assms(1) have X: "X \<noteq> []" and rows: "\<And>r. r \<in> set X \<Longrightarrow> length r = n_features X"
    by (simp_all add: check_array_def)
  from Xp(2) length_powers_pos have k: "0 < n_features ?Xp" by simp
  have ones: "column 0 ?Xp = replicate (length X) 1"
    by (simp add: column_def poly_row_bias map_replicate_const comp_def)
  with X have "mean (column 0 ?Xp) = 1"
    by (simp add: mean_def sum_list_replicate)
  with assms(2) k have m0: "sc_mean sc ! 0 = 1"
    by (simp add: StandardScaler_fit_Inr)
  have zero: "standardize sc (poly_row d r) ! 0 = 0" if "r \<in> set X" for r
  proof -
    from that have "length (poly_row d r) = n_features ?Xp" by (simp add: Xp(2) rows)
    with Xs(3,4) k have "standardize sc (poly_row d r) ! 0
        = (poly_row d r ! 0 - sc_mean sc ! 0) / sc_scale sc ! 0"
      by (intro nth_standardize) simp_all
    then show ?thesis by (simp add: poly_row_bias m0)
  qed
  define w :: vec where "w = 1 # replicate (n_features ?Xp - 1) 0"
  have "length w = n_features (map (standardize sc) ?Xp)"
    using k Xs(2) by (simp add: w_def)
  moreover have "\<exists>c\<in>set w. c \<noteq> 0" by (simp add: w_def)
  moreover have "dot r w = 0" if "r \<in> set (map (standardize sc) ?Xp)" for r
  proof -
    from that obtain r0 where r0: "r0 \<in> set X" "r = standardize sc (poly_row d r0)" by auto
    from that Xs(1,2) k have "length r \<noteq> 0" by (auto simp: check_array_def)
    then obtain a r' where r: "r = a # r'" by (cases r) auto
    with zero [OF r0(1)] r0(2) have "a = 0" by (metis nth_Cons_0)
    then show ?thesis by (simp add: w_def r)
  qed
  ultimately show ?thesis unfolding rank_deficient_def by blast
qed

text \<open>
  The fitted pipeline of degree 2 on three features is a linear model with an intercept
  over the ten terms, and on its training data no such model has a smaller sum of squared
  residuals.
\<close>

lemma Pipeline_least_squares:
  assumes fit: "Pipeline_fit p X y = Inr q" and deg: "degree p = 2"
    and rows3: "\<forall>r\<in>set X. length r = 3"
  shows "\<exists>b w. length w = 10
       \<and> (\<forall>X'. check_array X' \<and> n_features X' = 3 \<longrightarrow>
            Pipeline_predict q X' = Inr (map (\<lambda>r. b + dot w (poly_row 2 r)) X'))
       \<and> (\<forall>b' w'. length w' = 10 \<longrightarrow>
            squared_error y (map (\<lambda>r. b + dot w (poly_row 2 r)) X)
          \<le> squared_error y (map (\<lambda>r. b' + dot w' (poly_row 2 r)) X))"
proof -
  from fit deg obtain sc m where ok: "check_array X" and ly: "length y = length X"
    and sc: "StandardScaler_fit (map (poly_row 2) X) = Inr sc"
    and m: "LinearRegression_fit (map (standardize sc) (map (poly_row 2) X)) y = Inr m"
    and q: "q = p\<lparr>fitted := Some \<lparr>poly_features = n_features X, scaler = sc, model = m\<rparr>\<rparr>"
    by (auto simp: Pipeline_fit_Inr)
  from ok rows3 have n3: "n_features X = 3"
    by (cases X) (simp_all add: n_features_def check_array_def)
  note Xp = check_array_poly [OF ok, of 2, unfolded n3 length_powers_3_2]
  note Xs = check_array_standardize [OF Xp(1) sc, unfolded Xp(2)]
  have lc: "length (coef m) = 10"
    using length_coef [OF m] Xs(2) by simp
  define w where "w = map2 (/) (coef m) (sc_scale sc)"
  define b where "b = intercept m - dot (sc_mean sc) w"
  have lw: "length w = 10" by (simp add: w_def lc Xs(4))
  have tm: "dot (standardize sc (poly_row 2 r)) (coef m) + intercept m
            = b + dot w (poly_row 2 r)" if "length r = 3" for r
  proof -
    from that have "length (poly_row 2 r) = 10" by (simp add: length_powers_3_2)
    then show ?thesis
      unfolding standardize_def b_def w_def
      by (subst dot_affine) (simp_all add: Xs(3,4) lc dot_commute)
  qed
  have other: "dot (standardize sc (poly_row 2 r)) (map2 (*) w' (sc_scale sc))
              + (b' + dot (sc_mean sc) w') = b' + dot w' (poly_row 2 r)"
    if "length r = 3" "length w' = 10" for r b' w'
  proof -
    from that have "length (poly_row 2 r) = 10" by (simp add: length_powers_3_2)
    then show ?thesis
      unfolding standardize_def
      by (subst dot_affine_scaled) (simp_all add: Xs(3,4,5) that dot_commute)
  qed
  have pred: "Pipeline_predict q X' = Inr (map (\<lambda>r. b + dot w (poly_row 2 r)) X')"
    if X': "check_array X'" "n_features X' = 3" for X'
  proof -
    note Xp' = check_array_poly [OF X'(1), of 2, unfolded X'(2) length_powers_3_2]
    have "check_array (map (standardize sc) (map (poly_row 2) X'))"
      "n_features (map (standardize sc) (map (poly_row 2) X')) = 10"
      using check_array_standardize_any [OF Xp'(1), of sc] by (simp_all add: Xp'(2) Xs(3,4))
    moreover from X'(1) have "length r = 3" if "r \<in> set X'" for r
      using that by (simp add: check_array_def X'(2))
    ultimately show ?thesis
      using X' Xp'
      by (simp add: Pipeline_predict_def q deg n3 PolynomialFeatures_transform_def
            StandardScaler_transform_def LinearRegression_predict_def Xs(3) lc tm
            del: length_poly_row)
  qed
  have least: "squared_error y (map (\<lambda>r. b + dot w (poly_row 2 r)) X)
          \<le> squared_error y (map (\<lambda>r. b' + dot w' (poly_row 2 r)) X)"
    if "length w' = 10" for b' w'
  proof -
    have 1: "map (\<lambda>r. dot r (coef m) + intercept m) (map (standardize sc) (map (poly_row 2) X))
           = map (\<lambda>r. b + dot w (poly_row 2 r)) X"
      using rows3 by (simp add: tm)
    have 2: "map (\<lambda>r. dot r (map2 (*) w' (sc_scale sc)) + (b' + dot (sc_mean sc) w'))
               (map (standardize sc) (map (poly_row 2) X))
           = map (\<lambda>r. b' + dot w' (poly_row 2 r)) X"
      using rows3 that by (simp add: other)
    from LinearRegression_least_squares [OF m, of "map2 (*) w' (sc_scale sc)"
        "b' + dot (sc_mean sc) w'"]
    show ?thesis unfolding 1 2 .
  qed
  from lw pred least show ?thesis by blast
qed

subsection \<open>A fit worked out\<close>

text \<open>
  The pipeline of degree 2 fitted on the two training rows \<open>(0, 0, 0)\<close> and \<open>(2, 0, 0)\<close>:
  the expansion, the standardisation and the regression, evaluated step by step.
\<close>

lemmas vec_eval = dot_def vadd_def vsub_def vscale_def pinv_def lstsq_def Let_def

lemma poly_ex:
  "PolynomialFeatures_fit_transform 2 [[0, 0, 0], [2, 0, 0]]
     = Inr (3, [[1, 0, 0, 0, 0, 0, 0, 0, 0, 0], [1, 2, 0, 0, 4, 0, 0, 0, 0, 0]])"
  by (simp add: PolynomialFeatures_fit_transform_def poly_row_3 check_array_def n_features_def)

lemma scaler_ex:
  "StandardScaler_fit_transform [[1, 0, 0, 0, 0, 0, 0, 0, 0, 0], [1, 2, 0, 0, 4, 0, 0, 0, 0, 0]]
     = Inr (\<lparr>sc_mean = [1, 1, 0, 0, 2, 0, 0, 0, 0, 0], sc_var = [0, 1, 0, 0, 4, 0, 0, 0, 0, 0],
             sc_scale = [1, 1, 1, 1, 2, 1, 1, 1, 1, 1]\<rparr>,
            [[0, - 1, 0, 0, - 1, 0, 0, 0, 0, 0], [0, 1, 0, 0, 1, 0, 0, 0, 0, 0]])"
  by (simp add: StandardScaler_fit_transform_def StandardScaler_fit_def
          StandardScaler_transform_def array_eval power2_eq_square)

lemma linreg_ex:
  "LinearRegression_fit [[0, - 1, 0, 0, - 1, 0, 0, 0, 0, 0], [0, 1, 0, 0, 1, 0, 0, 0, 0, 0]] [0, 1]
     = Inr \<lparr>coef = [0, 1 / 4, 0, 0, 1 / 4, 0, 0, 0, 0, 0], intercept = 1 / 2\<rparr>"
  by (simp add: LinearRegression_fit_def check_array_def n_features_def columns_def column_def
        mean_def upt_rec vec_eval)

lemma fit_ex:
  assumes "LinearRegression_fit
      [[0, - 1, 0, 0, - 1, 0, 0, 0, 0, 0], [0, 1, 0, 0, 1, 0, 0, 0, 0, 0]] y = Inr m"
  shows "Pipeline_fit (new_Pipeline 2) [[0, 0, 0], [2, 0, 0]] y
   = Inr \<lparr>degree = 2, fitted = Some
        \<lparr>poly_features = 3,
         scaler = \<lparr>sc_mean = [1, 1, 0, 0, 2, 0, 0, 0, 0, 0], sc_var = [0, 1, 0, 0, 4, 0, 0, 0, 0, 0],
                   sc_scale = [1, 1, 1, 1, 2, 1, 1, 1, 1, 1]\<rparr>,
         model = m\<rparr>\<rparr>"
  by (simp add: Pipeline_fit_def new_Pipeline_def poly_ex scaler_ex assms)

subsection \<open>What the pipeline fits\<close>

text \<open>
  C6. For each target the regression cell fits the pipeline on the training features
  and that one target column. With three features and degree 2 the expansion is exactly
  the ten terms \<open>1, x, y, z, x\<^sup>2, xy, xz, y\<^sup>2, yz, z\<^sup>2\<close>, in this order; the fitted pipeline
  predicts with a linear model with intercept over these ten terms, and that model is an
  ordinary least-squares fit: on the training data no linear model over the ten terms has
  a smaller sum of squared residuals against the target column. (The standardisation
  between the expansion and the regression does not change which models can be fitted.)
\<close>

theorem pipeline_least_squares_on_ten_terms:
  assumes "degree (pipeline s) = 2" and "\<forall>r\<in>set (X_train s). length r = 3"
    and "fit_stmt tg s = Inr s'"
  shows "(\<forall>x y z. poly_row 2 [x, y, z] = [1, x, y, z, x * x, x * y, x * z, y * y, y * z, z * z])
       \<and> (\<exists>b w. length w = 10
            \<and> (\<forall>X'. check_array X' \<and> n_features X' = 3 \<longrightarrow>
                 Pipeline_predict (pipeline s') X' = Inr (map (\<lambda>r. b + dot w (poly_row 2 r)) X'))
            \<and> (\<forall>b' w'. length w' = 10 \<longrightarrow>
                 squared_error (column (target_column tg) (Y_train s))
                   (map (\<lambda>r. b + dot w (poly_row 2 r)) (X_train s))
               \<le> squared_error (column (target_column tg) (Y_train s))
                   (map (\<lambda>r. b' + dot w' (poly_row 2 r)) (X_train s))))"
proof -
  from assms(3) obtain q where
    q: "Pipeline_fit (pipeline s) (X_train s) (column (target_column tg) (Y_train s)) = Inr q"
    and s': "pipeline s' = q"
    by (auto simp: fit_stmt_def split: sum.splits)
  from Pipeline_least_squares [OF q assms(1,2)] s' poly_row_3 show ?thesis by simp
qed

theorem pipeline_least_squares_on_ten_terms_witness:
  "fit_stmt Tx
     \<lparr>X_train = [[0, 0, 0], [2, 0, 0]], X_test = [[1, 0, 0]],
      Y_train = [[0, 1, 2], [1, 3, 2]], Y_test = [[11 / 8, 11 / 4, 3]],
      pipeline = new_Pipeline 2, y_hat_for = (\<lambda>tg. None), rmse_for = (\<lambda>tg. None),
      stdout = []\<rparr>
   = Inr
     \<lparr>X_train = [[0, 0, 0], [2, 0, 0]], X_test = [[1, 0, 0]],
      Y_train = [[0, 1, 2], [1, 3, 2]], Y_test = [[11 / 8, 11 / 4, 3]],
      pipeline = \<lparr>degree = 2, fitted = Some
        \<lparr>poly_features = 3,
         scaler = \<lparr>sc_mean = [1, 1, 0, 0, 2, 0, 0, 0, 0, 0], sc_var = [0, 1, 0, 0, 4, 0, 0, 0, 0, 0],
                   sc_scale = [1, 1, 1, 1, 2, 1, 1, 1, 1, 1]\<rparr>,
         model = \<lparr>coef = [0, 1 / 4, 0, 0, 1 / 4, 0, 0, 0, 0, 0], intercept = 1 / 2\<rparr>\<rparr>\<rparr>,
      y_hat_for = (\<lambda>tg. None), rmse_for = (\<lambda>tg. None), stdout = []\<rparr>
   \<and> (\<exists>b w. length w = 10
        \<and> Pipeline_predict \<lparr>degree = 2, fitted = Some
             \<lparr>poly_features = 3,
              scaler = \<lparr>sc_mean = [1, 1, 0, 0, 2, 0, 0, 0, 0, 0],
                        sc_var = [0, 1, 0, 0, 4, 0, 0, 0, 0, 0],
                        sc_scale = [1, 1, 1, 1, 2, 1, 1, 1, 1, 1]\<rparr>,
              model = \<lparr>coef = [0, 1 / 4, 0, 0, 1 / 4, 0, 0, 0, 0, 0], intercept = 1 / 2\<rparr>\<rparr>\<rparr>
             [[1, 0, 0]] = Inr [b + dot w [1, 1, 0, 0, 1, 0, 0, 0, 0, 0]]
        \<and> squared_error [0, 1] (map (\<lambda>r. b + dot w (poly_row 2 r)) [[0, 0, 0], [2, 0, 0]])
          \<le> squared_error [0, 1]
               (map (\<lambda>r. 1 + dot [0, 1, 0, 0, 0, 0, 0, 0, 0, 0] (poly_row 2 r))
                  [[0, 0, 0], [2, 0, 0]]))"
proof -
  let ?s = "\<lparr>X_train = [[0, 0, 0], [2, 0, 0]], X_test = [[1, 0, 0]],
      Y_train = [[0, 1, 2], [1, 3, 2]], Y_test = [[11 / 8, 11 / 4, 3]],
      pipeline = new_Pipeline 2, y_hat_for = (\<lambda>tg. None), rmse_for = (\<lambda>tg. None),
      stdout = []\<rparr>"
  let ?q = "\<lparr>degree = 2, fitted = Some
        \<lparr>poly_features = 3,
         scaler = \<lparr>sc_mean = [1, 1, 0, 0, 2, 0, 0, 0, 0, 0], sc_var = [0, 1, 0, 0, 4, 0, 0, 0, 0, 0],
                   sc_scale = [1, 1, 1, 1, 2, 1, 1, 1, 1, 1]\<rparr>,
         model = \<lparr>coef = [0, 1 / 4, 0, 0, 1 / 4, 0, 0, 0, 0, 0], intercept = 1 / 2\<rparr>\<rparr>\<rparr>"
  have f: "fit_stmt Tx ?s = Inr (?s\<lparr>pipeline := ?q\<rparr>)"
    by (simp add: fit_stmt_def column_def fit_ex [OF linreg_ex])
  have d: "degree (pipeline ?s) = 2" by (simp add: new_Pipeline_def)
  have r: "\<forall>r\<in>set (X_train ?s). length r = 3" by simp
  have q: "pipeline (?s\<lparr>pipeline := ?q\<rparr>) = ?q" by simp
  have c: "column (target_column Tx) (Y_train ?s) = [0, 1]" "X_train ?s = [[0, 0, 0], [2, 0, 0]]"
    by (simp_all add: column_def)
  from pipeline_least_squares_on_ten_terms [OF d r f, THEN conjunct2, unfolded q c]
  obtain b w where bw: "length w = 10"
    "\<forall>X'. check_array X' \<and> n_features X' = 3 \<longrightarrow>
        Pipeline_predict ?q X' = Inr (map (\<lambda>r. b + dot w (poly_row 2 r)) X')"
    "\<forall>b' w'. length w' = 10 \<longrightarrow>
        squared_error [0, 1] (map (\<lambda>r. b + dot w (poly_row 2 r)) [[0, 0, 0], [2, 0, 0]])
      \<le> squared_error [0, 1] (map (\<lambda>r. b' + dot w' (poly_row 2 r)) [[0, 0, 0], [2, 0, 0]])"
    by blast
  have "check_array [[1, 0, 0 :: real]] \<and> n_features [[1, 0, 0 :: real]] = 3"
    by (simp add: check_array_def n_features_def)
  with bw(2) have "Pipeline_predict ?q [[1, 0, 0]] = Inr [b + dot w [1, 1, 0, 0, 1, 0, 0, 0, 0, 0]]"
    by (simp add: poly_row_3)
  moreover have "length [0, 1, 0, 0, 0, 0, 0, 0, 0, 0 :: real] = 10" by simp
  with bw(3) have
    "squared_error [0, 1] (map (\<lambda>r. b + dot w (poly_row 2 r)) [[0, 0, 0], [2, 0, 0]])
      \<le> squared_error [0, 1]
           (map (\<lambda>r. 1 + dot [0, 1, 0, 0, 0, 0, 0, 0, 0, 0] (poly_row 2 r))
              [[0, 0, 0], [2, 0, 0]])"
    by blast
  ultimately have "\<exists>b w. length w = 10
        \<and> Pipeline_predict ?q [[1, 0, 0]] = Inr [b + dot w [1, 1, 0, 0, 1, 0, 0, 0, 0, 0]]
        \<and> squared_error [0, 1] (map (\<lambda>r. b + dot w (poly_row 2 r)) [[0, 0, 0], [2, 0, 0]])
          \<le> squared_error [0, 1]
               (map (\<lambda>r. 1 + dot [0, 1, 0, 0, 0, 0, 0, 0, 0, 0] (poly_row 2 r))
                  [[0, 0, 0], [2, 0, 0]])"
    using bw(1) by blast
  moreover have "?s\<lparr>pipeline := ?q\<rparr> = \<lparr>X_train = [[0, 0, 0], [2, 0, 0]], X_test = [[1, 0, 0]],
      Y_train = [[0, 1, 2], [1, 3, 2]], Y_test = [[11 / 8, 11 / 4, 3]],
      pipeline = ?q, y_hat_for = (\<lambda>tg. None), rmse_for = (\<lambda>tg. None), stdout = []\<rparr>"
    by simp
  ultimately show ?thesis using f by (simp only:) 
qed

text \<open>
  C4 (amended). Fitting the pipeline does not fail for a rank-deficient matrix. It returns
  a fitted model whenever the training array is a non-empty array and the target has one
  value for each of its rows, and it raises ValueError in every other case, and in no
  case for the rank. The model returned is a least-squares fit, and among the
  least-squares fits the one whose coefficient vector has the least norm. The matrix that
  the regression step is fitted on is rank-deficient in every successful fit, its first
  column being the standardised constant term.
\<close>

theorem pipeline_fit_whatever_the_rank:
  "(check_array X \<and> length y = length X \<longrightarrow> (\<exists>q. Pipeline_fit p X y = Inr q))
 \<and> (\<not> (check_array X \<and> length y = length X) \<longrightarrow> Pipeline_fit p X y = Inl ValueError)
 \<and> (\<forall>q f. Pipeline_fit p X y = Inr q \<longrightarrow> fitted q = Some f \<longrightarrow>
       rank_deficient (map (standardize (scaler f)) (map (poly_row (degree p)) X))
     \<and> (\<forall>w' b'.
           squared_error y (map (\<lambda>r. dot r (coef (model f)) + intercept (model f))
              (map (standardize (scaler f)) (map (poly_row (degree p)) X)))
         \<le> squared_error y (map (\<lambda>r. dot r w' + b')
              (map (standardize (scaler f)) (map (poly_row (degree p)) X))))
     \<and> (\<forall>w' b'. length w' = length (coef (model f)) \<longrightarrow>
           squared_error y (map (\<lambda>r. dot r w' + b')
              (map (standardize (scaler f)) (map (poly_row (degree p)) X)))
         \<le> squared_error y (map (\<lambda>r. dot r (coef (model f)) + intercept (model f))
              (map (standardize (scaler f)) (map (poly_row (degree p)) X))) \<longrightarrow>
           dot (coef (model f)) (coef (model f)) \<le> dot w' w'))"
proof (intro conjI allI impI)
  assume ok: "check_array X \<and> length y = length X"
  show "\<exists>q. Pipeline_fit p X y = Inr q"
  proof (cases "Pipeline_fit p X y")
    case (Inl e)
    with ok show ?thesis by (simp add: Pipeline_fit_Inl)
  next
    case (Inr q)
    then show ?thesis by blast
  qed
next
  assume bad: "\<not> (check_array X \<and> length y = length X)"
  show "Pipeline_fit p X y = Inl ValueError"
  proof (cases "Pipeline_fit p X y")
    case (Inl e)
    then show ?thesis by (simp add: Pipeline_fit_Inl)
  next
    case (Inr q)
    with bad show ?thesis by (simp add: Pipeline_fit_Inr)
  qed
next
  fix q f
  assume "Pipeline_fit p X y = Inr q" "fitted q = Some f"
  then have "check_array X" "StandardScaler_fit (map (poly_row (degree p)) X) = Inr (scaler f)"
    by (auto simp: Pipeline_fit_Inr)
  then show "rank_deficient (map (standardize (scaler f)) (map (poly_row (degree p)) X))"
    by (rule standardised_design_rank_deficient)
next
  fix q f and w' :: vec and b' :: real
  assume "Pipeline_fit p X y = Inr q" "fitted q = Some f"
  then have "LinearRegression_fit
      (map (standardize (scaler f)) (map (poly_row (degree p)) X)) y = Inr (model f)"
    by (auto simp: Pipeline_fit_Inr)
  then show "squared_error y (map (\<lambda>r. dot r (coef (model f)) + intercept (model f))
              (map (standardize (scaler f)) (map (poly_row (degree p)) X)))
         \<le> squared_error y (map (\<lambda>r. dot r w' + b')
              (map (standardize (scaler f)) (map (poly_row (degree p)) X)))"
    by (rule LinearRegression_least_squares)
next
  fix q f and w' :: vec and b' :: real
  assume "Pipeline_fit p X y = Inr q" "fitted q = Some f"
  then have m: "LinearRegression_fit
      (map (standardize (scaler f)) (map (poly_row (degree p)) X)) y = Inr (model f)"
    by (auto simp: Pipeline_fit_Inr)
  assume "length w' = length (coef (model f))"
  then have "length w' = n_features (map (standardize (scaler f)) (map (poly_row (degree p)) X))"
    by (simp only: length_coef [OF m])
  moreover assume "squared_error y (map (\<lambda>r. dot r w' + b')
              (map (standardize (scaler f)) (map (poly_row (degree p)) X)))
         \<le> squared_error y (map (\<lambda>r. dot r (coef (model f)) + intercept (model f))
              (map (standardize (scaler f)) (map (poly_row (degree p)) X)))"
  ultimately show "dot (coef (model f)) (coef (model f)) \<le> dot w' w'"
    by (rule LinearRegression_minimum_norm [OF m])
qed

theorem pipeline_fit_whatever_the_rank_witness:
  "check_array [[0, 0, 0], [2, 0, 0]] \<and> length [0, 1 :: real] = length [[0, 0, 0], [2, 0, 0 :: real]]
 \<and> (\<exists>q. Pipeline_fit (new_Pipeline 2) [[0, 0, 0], [2, 0, 0]] [0, 1] = Inr q)
 \<and> \<not> check_array []
 \<and> Pipeline_fit (new_Pipeline 2) [] [] = Inl ValueError
 \<and> rank_deficient [[0, - 1, 0, 0, - 1, 0, 0, 0, 0, 0], [0, 1, 0, 0, 1, 0, 0, 0, 0, 0]]
 \<and> squared_error [0, 1] (map (\<lambda>r. dot r [0, 1 / 2, 0, 0, 0, 0, 0, 0, 0, 0] + 1 / 2)
       [[0, - 1, 0, 0, - 1, 0, 0, 0, 0, 0], [0, 1, 0, 0, 1, 0, 0, 0, 0, 0]])
   \<le> squared_error [0, 1] (map (\<lambda>r. dot r [0, 1 / 4, 0, 0, 1 / 4, 0, 0, 0, 0, 0] + 1 / 2)
       [[0, - 1, 0, 0, - 1, 0, 0, 0, 0, 0], [0, 1, 0, 0, 1, 0, 0, 0, 0, 0]])
 \<and> dot [0, 1 / 4, 0, 0, 1 / 4, 0, 0, 0, 0, 0] [0, 1 / 4, 0, 0, 1 / 4, 0, 0, 0, 0, 0]
   \<le> dot [0, 1 / 2, 0, 0, 0, 0, 0, 0, 0, 0] [0, 1 / 2, 0, 0, 0, 0, 0, 0, 0, 0]"
proof -
  let ?f = "\<lparr>poly_features = 3,
         scaler = \<lparr>sc_mean = [1, 1, 0, 0, 2, 0, 0, 0, 0, 0], sc_var = [0, 1, 0, 0, 4, 0, 0, 0, 0, 0],
                   sc_scale = [1, 1, 1, 1, 2, 1, 1, 1, 1, 1]\<rparr>,
         model = \<lparr>coef = [0, 1 / 4, 0, 0, 1 / 4, 0, 0, 0, 0, 0], intercept = 1 / 2\<rparr>\<rparr>"
  have ok: "check_array [[0, 0, 0], [2, 0, 0]]
      \<and> length [0, 1 :: real] = length [[0, 0, 0], [2, 0, 0 :: real]]"
    by (simp add: check_array_def n_features_def)
  have bad: "\<not> (check_array [] \<and> length ([] :: vec) = length ([] :: matrix))"
    by (simp add: check_array_def)
  note fit = fit_ex [OF linreg_ex]
  have f: "fitted \<lparr>degree = 2, fitted = Some ?f\<rparr> = Some ?f" by simp
  note inst = pipeline_fit_whatever_the_rank [of "[[0, 0, 0], [2, 0, 0]]" "[0, 1]" "new_Pipeline 2"]
  from inst [THEN conjunct2, THEN conjunct2, rule_format, OF fit f, THEN conjunct1]
  have "rank_deficient [[0, - 1, 0, 0, - 1, 0, 0, 0, 0, 0], [0, 1, 0, 0, 1, 0, 0, 0, 0, 0]]"
    by (simp add: new_Pipeline_def poly_row_3 standardize_def)
  moreover from inst [THEN conjunct1] ok
  have "\<exists>q. Pipeline_fit (new_Pipeline 2) [[0, 0, 0], [2, 0, 0]] [0, 1] = Inr q"
    by blast
  moreover from pipeline_fit_whatever_the_rank [of "[]" "[]" "new_Pipeline 2",
      THEN conjunct2, THEN conjunct1] bad
  have "Pipeline_fit (new_Pipeline 2) [] [] = Inl ValueError"
    by blast
  moreover have sse: "squared_error [0, 1]
        (map (\<lambda>r. dot r [0, 1 / 2, 0, 0, 0, 0, 0, 0, 0, 0] + 1 / 2)
           [[0, - 1, 0, 0, - 1, 0, 0, 0, 0, 0], [0, 1, 0, 0, 1, 0, 0, 0, 0, 0]])
      \<le> squared_error [0, 1]
        (map (\<lambda>r. dot r [0, 1 / 4, 0, 0, 1 / 4, 0, 0, 0, 0, 0] + 1 / 2)
           [[0, - 1, 0, 0, - 1, 0, 0, 0, 0, 0], [0, 1, 0, 0, 1, 0, 0, 0, 0, 0]])"
    by (simp add: squared_error_def)
  moreover from inst [THEN conjunct2, THEN conjunct2, rule_format, OF fit f,
      THEN conjunct2, THEN conjunct2, rule_format,
      of "[0, 1 / 2, 0, 0, 0, 0, 0, 0, 0, 0]" "1 / 2"] sse
  have "dot [0, 1 / 4, 0, 0, 1 / 4, 0, 0, 0, 0, 0] [0, 1 / 4, 0, 0, 1 / 4, 0, 0, 0, 0, 0]
      \<le> dot [0, 1 / 2, 0, 0, 0, 0, 0, 0, 0, 0] [0, 1 / 2, 0, 0, 0, 0, 0, 0, 0, 0]"
    by (simp add: new_Pipeline_def poly_row_3 standardize_def)
  ultimately show ?thesis using ok bad by simp
qed

theorem rank_deficient_fit_counterexample:
  "PolynomialFeatures_fit_transform 2 [[0, 0, 0], [2, 0, 0]]
     = Inr (3, [[1, 0, 0, 0, 0, 0, 0, 0, 0, 0], [1, 2, 0, 0, 4, 0, 0, 0, 0, 0]])
 \<and> length [[1, 0, 0, 0, 0, 0, 0, 0, 0, 0], [1, 2, 0, 0, 4, 0, 0, 0, 0, 0 :: real]]
     < n_features [[1, 0, 0, 0, 0, 0, 0, 0, 0, 0], [1, 2, 0, 0, 4, 0, 0, 0, 0, 0]]
 \<and> rank_deficient [[1, 0, 0, 0, 0, 0, 0, 0, 0, 0], [1, 2, 0, 0, 4, 0, 0, 0, 0, 0]]
 \<and> Pipeline_fit (new_Pipeline 2) [[0, 0, 0], [2, 0, 0]] [0, 1]
     = Inr \<lparr>degree = 2, fitted = Some
        \<lparr>poly_features = 3,
         scaler = \<lparr>sc_mean = [1, 1, 0, 0, 2, 0, 0, 0, 0, 0], sc_var = [0, 1, 0, 0, 4, 0, 0, 0, 0, 0],
                   sc_scale = [1, 1, 1, 1, 2, 1, 1, 1, 1, 1]\<rparr>,
         model = \<lparr>coef = [0, 1 / 4, 0, 0, 1 / 4, 0, 0, 0, 0, 0], intercept = 1 / 2\<rparr>\<rparr>\<rparr>"
proof -
  have "length [0, 0, 1, 0, 0, 0, 0, 0, 0, 0 :: real]
      = n_features [[1, 0, 0, 0, 0, 0, 0, 0, 0, 0], [1, 2, 0, 0, 4, 0, 0, 0, 0, 0]]"
    "\<exists>c\<in>set [0, 0, 1, 0, 0, 0, 0, 0, 0, 0 :: real]. c \<noteq> 0"
    "\<forall>r\<in>set [[1, 0, 0, 0, 0, 0, 0, 0, 0, 0], [1, 2, 0, 0, 4, 0, 0, 0, 0, 0]].
       dot r [0, 0, 1, 0, 0, 0, 0, 0, 0, 0] = 0"
    by (simp_all add: n_features_def)
  then have "rank_deficient [[1, 0, 0, 0, 0, 0, 0, 0, 0, 0], [1, 2, 0, 0, 4, 0, 0, 0, 0, 0]]"
    unfolding rank_deficient_def by blast
  with poly_ex fit_ex [OF linreg_ex] show ?thesis by (simp add: n_features_def)
qed

end
